theory Spec2Isabelle
  imports Main
begin

section \<open>Values, errors and ordered dictionaries\<close>

text \<open>
  The module \<^verbatim>\<open>model_organization/config.py\<close> works on the objects a YAML file
  holds: null, booleans, integers, strings, sequences and ordered mappings with
  string keys, and on \<^verbatim>\<open>Archive\<close>, a subclass of the text type with the two
  attributes \<^verbatim>\<open>project\<close> and \<^verbatim>\<open>time\<close> (both \<^verbatim>\<open>None\<close> by default).
  An \<^verbatim>\<open>OrderedDict\<close> is the list of its items in insertion order.
  Strings are lists of characters; the path functions below only look at the
  characters \<^verbatim>\<open>/\<close> and \<^verbatim>\<open>.\<close>.
\<close>

datatype pyval =
    PNone
  | PBool bool
  | PInt int
  | PStr string
  | PArchive string "string option" "string option"
  | PList "pyval list"
  | PDict "(string \<times> pyval) list"

type_synonym odict = "(string \<times> pyval) list"

text \<open>The exceptions the modelled code can raise.\<close>

datatype error =
    KeyError
  | TypeError
  | IndexError
  | ValueError
  | AttributeError
  | IOError
  | OSError
  | YAMLError

text \<open>\<^verbatim>\<open>isinstance(v, dict)\<close>, \<^verbatim>\<open>isinstance(v, Archive)\<close> and
  \<^verbatim>\<open>isinstance(v, six.string_types)\<close> (an Archive is a string).\<close>

fun is_dict :: "pyval \<Rightarrow> bool" where
  "is_dict (PDict _) = True"
| "is_dict _ = False"

fun is_archive :: "pyval \<Rightarrow> bool" where
  "is_archive (PArchive _ _ _) = True"
| "is_archive _ = False"

fun str_of :: "pyval \<Rightarrow> string option" where
  "str_of (PStr s) = Some s"
| "str_of (PArchive s _ _) = Some s"
| "str_of _ = None"

definition is_string :: "pyval \<Rightarrow> bool" where
  "is_string v = (str_of v \<noteq> None)"

text \<open>\<^verbatim>\<open>d.get(key)\<close> is \<open>map_of d key\<close>; \<^verbatim>\<open>d[key] = val\<close> on an ordered
  dictionary replaces the value of a key that is present, in place, and appends
  a new key at the end.\<close>

fun odict_set :: "string \<Rightarrow> pyval \<Rightarrow> odict \<Rightarrow> odict" where
  "odict_set k v [] = [(k, v)]"
| "odict_set k v ((k', v') # rest) =
     (if k' = k then (k, v) # rest else (k', v') # odict_set k v rest)"

text \<open>\<^verbatim>\<open>obj[key]\<close> with a string key: a mapping raises KeyError for a missing
  key, every other object raises TypeError (string and list indices must be
  integers, the other objects are not subscriptable).\<close>

fun py_getitem :: "pyval \<Rightarrow> string \<Rightarrow> error + pyval" where
  "py_getitem (PDict d) k = (case map_of d k of None \<Rightarrow> Inl KeyError | Some v \<Rightarrow> Inr v)"
| "py_getitem _ k = Inl TypeError"

text \<open>\<^verbatim>\<open>obj[key] = val\<close> with a string key: only a mapping supports it.\<close>

fun py_setitem :: "pyval \<Rightarrow> string \<Rightarrow> pyval \<Rightarrow> error + pyval" where
  "py_setitem (PDict d) k v = Inr (PDict (odict_set k v d))"
| "py_setitem _ k v = Inl TypeError"

text \<open>\<^verbatim>\<open>obj[0]\<close>: the first element of a sequence or the first character of a
  string, IndexError when there is none; a mapping with string keys has no key
  \<^verbatim>\<open>0\<close>.\<close>

fun py_first :: "pyval \<Rightarrow> error + pyval" where
  "py_first (PList []) = Inl IndexError"
| "py_first (PList (x # _)) = Inr x"
| "py_first (PStr []) = Inl IndexError"
| "py_first (PStr (c # _)) = Inr (PStr [c])"
| "py_first (PArchive [] _ _) = Inl IndexError"
| "py_first (PArchive (c # _) _ _) = Inr (PStr [c])"
| "py_first (PDict _) = Inl KeyError"
| "py_first _ = Inl TypeError"

section \<open>The functions of \<^verbatim>\<open>os.path\<close> (POSIX) the module calls\<close>

definition sep :: char where
  "sep = CHR ''/''"

definition isabs :: "string \<Rightarrow> bool" where
  "isabs s = (case s of [] \<Rightarrow> False | c # _ \<Rightarrow> c = sep)"

text \<open>\<^verbatim>\<open>posixpath.join(a, b)\<close>: an absolute \<open>b\<close> replaces \<open>a\<close>; otherwise \<open>b\<close>
  is appended, after a separator unless \<open>a\<close> is empty or ends with one.\<close>

definition join :: "string \<Rightarrow> string \<Rightarrow> string" where
  "join a b =
     (if isabs b then b
      else if a = [] \<or> last a = sep then a @ b
      else a @ sep # b)"

text \<open>\<^verbatim>\<open>osp.join\<close> on objects: TypeError unless both are strings; the result is
  a plain string.\<close>

definition osp_join :: "pyval \<Rightarrow> pyval \<Rightarrow> error + string" where
  "osp_join a b =
     (case str_of a of
        None \<Rightarrow> Inl TypeError
      | Some x \<Rightarrow> (case str_of b of None \<Rightarrow> Inl TypeError | Some y \<Rightarrow> Inr (join x y)))"

text \<open>\<^verbatim>\<open>s.split('/')\<close>: the pieces between separators; always at least one.\<close>

fun split_sep :: "string \<Rightarrow> string list" where
  "split_sep [] = [[]]"
| "split_sep (c # cs) =
     (if c = sep then [] # split_sep cs
      else (c # hd (split_sep cs)) # tl (split_sep cs))"

text \<open>The loop of \<^verbatim>\<open>posixpath.normpath\<close> over the components: empty and
  \<^verbatim>\<open>.\<close> components are skipped; \<^verbatim>\<open>..\<close> removes the last kept component, is
  kept when the path is relative and nothing precedes it or when another
  \<^verbatim>\<open>..\<close> precedes it, and is dropped at the root.\<close>

fun norm_comps :: "bool \<Rightarrow> string list \<Rightarrow> string list \<Rightarrow> string list" where
  "norm_comps slashes new_comps [] = new_comps"
| "norm_comps slashes new_comps (c # comps) =
     (if c = [] \<or> c = ''.'' then norm_comps slashes new_comps comps
      else if c \<noteq> ''..'' \<or> (\<not> slashes \<and> new_comps = [])
                \<or> (new_comps \<noteq> [] \<and> last new_comps = ''..'')
           then norm_comps slashes (new_comps @ [c]) comps
      else if new_comps \<noteq> [] then norm_comps slashes (butlast new_comps) comps
      else norm_comps slashes new_comps comps)"

text \<open>\<^verbatim>\<open>'/'.join(comps)\<close>.\<close>

fun sep_join :: "string list \<Rightarrow> string" where
  "sep_join [] = []"
| "sep_join [c] = c"
| "sep_join (c # cs) = c @ sep # sep_join cs"

text \<open>\<^verbatim>\<open>posixpath.normpath\<close>: one or two leading slashes are kept as they are,
  three or more become one.\<close>

definition normpath :: "string \<Rightarrow> string" where
  "normpath path =
     (if path = [] then ''.''
      else
        let initial_slashes =
              (if isabs path then
                 (if take 2 path = [sep, sep] \<and> take 3 path \<noteq> [sep, sep, sep]
                  then 2 else 1)
               else (0::nat));
            comps = norm_comps (initial_slashes \<noteq> 0) [] (split_sep path);
            p = replicate initial_slashes sep @ sep_join comps
        in if p = [] then ''.'' else p)"

text \<open>\<^verbatim>\<open>posixpath.abspath\<close>, with the current working directory as a
  parameter.\<close>

definition abspath :: "string \<Rightarrow> string \<Rightarrow> string" where
  "abspath cwd path = normpath (if isabs path then path else join cwd path)"

text \<open>\<^verbatim>\<open>os.path.commonprefix\<close> of two lists: their longest common prefix.\<close>

fun commonprefix :: "string list \<Rightarrow> string list \<Rightarrow> string list" where
  "commonprefix (x # xs) (y # ys) = (if x = y then x # commonprefix xs ys else [])"
| "commonprefix _ _ = []"

text \<open>\<^verbatim>\<open>posixpath.join(*rel_list)\<close> for a non-empty list.\<close>

fun join_list :: "string list \<Rightarrow> string" where
  "join_list [] = []"
| "join_list (a # p) = foldl join a p"

text \<open>\<^verbatim>\<open>posixpath.relpath(path, start)\<close>: ValueError for the empty path.\<close>

definition relpath :: "string \<Rightarrow> string \<Rightarrow> string \<Rightarrow> error + string" where
  "relpath cwd path start =
     (if path = [] then Inl ValueError
      else
        let start_list = filter (\<lambda>x. x \<noteq> []) (split_sep (abspath cwd start));
            path_list = filter (\<lambda>x. x \<noteq> []) (split_sep (abspath cwd path));
            i = length (commonprefix start_list path_list);
            rel_list = replicate (length start_list - i) ''..'' @ drop i path_list
        in if rel_list = [] then Inr ''.'' else Inr (join_list rel_list))"

text \<open>The objects that are false: \<^verbatim>\<open>None\<close>, \<^verbatim>\<open>False\<close>, zero and the empty
  string, sequence and mapping.\<close>

fun falsy :: "pyval \<Rightarrow> bool" where
  "falsy PNone = True"
| "falsy (PBool b) = (\<not> b)"
| "falsy (PInt i) = (i = 0)"
| "falsy (PStr s) = (s = [])"
| "falsy (PArchive s _ _) = (s = [])"
| "falsy (PList xs) = (xs = [])"
| "falsy (PDict d) = (d = [])"

text \<open>\<^verbatim>\<open>osp.relpath(path, start)\<close> on objects: ValueError for a path that is
  false, TypeError for any other path that is not a string; \<^verbatim>\<open>None\<close> as
  \<^verbatim>\<open>start\<close> stands for the current directory and any other start that is not a
  string raises TypeError.\<close>

definition osp_relpath :: "string \<Rightarrow> pyval \<Rightarrow> pyval \<Rightarrow> error + string" where
  "osp_relpath cwd a b =
     (if falsy a then Inl ValueError
      else
        (case str_of a of
           None \<Rightarrow> Inl TypeError
         | Some x \<Rightarrow>
             (case b of
                PNone \<Rightarrow> relpath cwd x ''.''
              | _ \<Rightarrow> (case str_of b of None \<Rightarrow> Inl TypeError | Some y \<Rightarrow> relpath cwd x y))))"

section \<open>The path normaliser: \<^verbatim>\<open>fix_paths\<close> and \<^verbatim>\<open>rel_paths\<close>\<close>

text \<open>\<^verbatim>\<open>ExperimentsConfig.paths\<close>, the path-like keys.\<close>

definition paths :: "string list" where
  "paths = [''expdir'', ''src'', ''data'', ''input'', ''outdata'', ''outdir'',
            ''plot_output'', ''project_output'']"

text \<open>Modelled from the spec: \<^verbatim>\<open>utils.safe_list\<close> lives in
  \<^verbatim>\<open>model_organization/utils.py\<close>, which is not among the source files. The spec
  speaks of a value that is ``a single path string, or a sequence whose first
  element is a path string'', and of the empty sequence as having ``no first
  element to test'': \<open>safe_list\<close> turns a value into the list of its elements, a
  string or another scalar into the one-element list holding it, and a sequence
  into the list of its own elements (a mapping, which never reaches it in this
  module, into the list of its keys).\<close>

fun safe_list :: "pyval \<Rightarrow> pyval list" where
  "safe_list (PList xs) = xs"
| "safe_list (PDict d) = map (\<lambda>kv. PStr (fst kv)) d"
| "safe_list v = [v]"

text \<open>\<^verbatim>\<open>self.projects[project]['root']\<close>: the registry's keys are strings; a
  sequence or a mapping is not hashable (TypeError) and every other key that is
  not a name of the registry raises KeyError.\<close>

definition lookup_root :: "odict \<Rightarrow> pyval \<Rightarrow> error + pyval" where
  "lookup_root projects project =
     (case project of
        PList _ \<Rightarrow> Inl TypeError
      | PDict _ \<Rightarrow> Inl TypeError
      | _ \<Rightarrow>
        (case str_of project of
           None \<Rightarrow> Inl KeyError
         | Some p \<Rightarrow>
           (case map_of projects p of
              None \<Rightarrow> Inl KeyError
            | Some r \<Rightarrow> py_getitem r ''root'')))"

text \<open>The head of \<^verbatim>\<open>fix_paths\<close> and of \<^verbatim>\<open>rel_paths\<close>: the root and the project
  when one of them is \<^verbatim>\<open>None\<close>. It returns the pair (root, project) the loop
  then works with.\<close>

definition resolve_root :: "odict \<Rightarrow> odict \<Rightarrow> pyval \<Rightarrow> pyval \<Rightarrow> error + (pyval \<times> pyval)" where
  "resolve_root projects d root project =
     (if root = PNone \<and> project = PNone then
        (let project' = (case map_of d ''project'' of None \<Rightarrow> PNone | Some p \<Rightarrow> p) in
         if project' \<noteq> PNone then
           (case lookup_root projects project' of
              Inl e \<Rightarrow> Inl e
            | Inr r \<Rightarrow> Inr (r, project'))
         else
           (case map_of d ''root'' of
              None \<Rightarrow> Inl KeyError
            | Some r \<Rightarrow> Inr (r, project')))
      else if root = PNone then
        (case lookup_root projects project of
           Inl e \<Rightarrow> Inl e
         | Inr r \<Rightarrow> Inr (r, project))
      else Inr (root, project))"

text \<open>\<^verbatim>\<open>for i in range(len(val)): val[i] = osp.join(root, val[i])\<close>. The list is
  changed in place, so when an element raises, the elements before it stay
  rewritten: the function returns the list as it is then, with the error.
  In this section a document is a value, a tree: a sequence that the program
  holds at two places is two equal sequences here, and a change of one is not a
  change of the other. The section on documents as objects below keeps
  sequences in a store, where one sequence object can be held at many places.\<close>

fun join_all :: "pyval \<Rightarrow> pyval list \<Rightarrow> pyval list \<times> error option" where
  "join_all root [] = ([], None)"
| "join_all root (x # xs) =
     (case osp_join root x of
        Inl e \<Rightarrow> (x # xs, Some e)
      | Inr j \<Rightarrow> (case join_all root xs of (ys, e) \<Rightarrow> (PStr j # ys, e)))"

definition join_each :: "pyval \<Rightarrow> pyval \<Rightarrow> pyval \<times> error option" where
  "join_each root val =
     (case val of
        PList xs \<Rightarrow> (case join_all root xs of (ys, e) \<Rightarrow> (PList ys, e))
      | _ \<Rightarrow> (val, Some TypeError))"

text \<open>The \<^verbatim>\<open>elif\<close> branch of \<^verbatim>\<open>fix_paths\<close> for a path-like key:
  \<^verbatim>\<open>isinstance(utils.safe_list(val)[0], six.string_types) and not osp.isabs(val[0])\<close>.\<close>

definition fix_seq :: "pyval \<Rightarrow> pyval \<Rightarrow> pyval \<times> error option" where
  "fix_seq root val =
     (case safe_list val of
        [] \<Rightarrow> (val, Some IndexError)
      | x # _ \<Rightarrow>
        if is_string x then
          (case py_first val of
             Inl e \<Rightarrow> (val, Some e)
           | Inr v0 \<Rightarrow>
             (case str_of v0 of
                None \<Rightarrow> (val, Some TypeError)
              | Some s0 \<Rightarrow> if \<not> isabs s0 then join_each root val else (val, None)))
        else (val, None))"

text \<open>The body of \<^verbatim>\<open>fix_paths\<close> for a path-like key whose value is not a
  mapping: the new value of \<^verbatim>\<open>d[key]\<close> and the error raised, if any.\<close>

definition fix_value :: "pyval \<Rightarrow> pyval \<Rightarrow> pyval \<times> error option" where
  "fix_value root val =
     (case str_of val of
        Some s \<Rightarrow>
          if \<not> isabs s then
            (case osp_join root val of
               Inl e \<Rightarrow> (val, Some e)
             | Inr j \<Rightarrow> (PStr j, None))
          else fix_seq root val
      | None \<Rightarrow> fix_seq root val)"

text \<open>\<^verbatim>\<open>ExperimentsConfig.fix_paths(d, root, project)\<close>. The dictionary is changed
  in place and returned; the model returns the dictionary as it is when the call
  ends, and the error when the call ends by raising. \<open>fix_items\<close> is the loop
  \<^verbatim>\<open>for key, val in d.items()\<close> over the items not yet visited (the keys of a
  dictionary are distinct, so \<^verbatim>\<open>d[key] = ...\<close> changes the item visited). The first
  argument is \<^verbatim>\<open>self.projects\<close>.\<close>

fun fix_paths :: "odict \<Rightarrow> odict \<Rightarrow> pyval \<Rightarrow> pyval \<Rightarrow> odict \<times> error option"
and fix_items :: "odict \<Rightarrow> pyval \<Rightarrow> pyval \<Rightarrow> odict \<Rightarrow> odict \<times> error option" where
  "fix_paths projects d root project =
     (case resolve_root projects d root project of
        Inl e \<Rightarrow> (d, Some e)
      | Inr rp \<Rightarrow> fix_items projects (fst rp) (snd rp) d)"
| "fix_items projects root project [] = ([], None)"
| "fix_items projects root project ((key, val) # rest) =
     (case val of
        PDict sub \<Rightarrow>
          (case fix_paths projects sub root project of
             (sub', Some e) \<Rightarrow> ((key, PDict sub') # rest, Some e)
           | (sub', None) \<Rightarrow>
             (case fix_items projects root project rest of
                (rest', e) \<Rightarrow> ((key, PDict sub') # rest', e)))
      | _ \<Rightarrow>
          if key \<in> set paths then
            (case fix_value root val of
               (val', Some e) \<Rightarrow> ((key, val') # rest, Some e)
             | (val', None) \<Rightarrow>
               (case fix_items projects root project rest of
                  (rest', e) \<Rightarrow> ((key, val') # rest', e)))
          else
            (case fix_items projects root project rest of
               (rest', e) \<Rightarrow> ((key, val) # rest', e)))"

text \<open>\<^verbatim>\<open>for i in range(len(val)): val[i] = osp.relpath(val[i], root)\<close>.\<close>

fun relpath_all :: "string \<Rightarrow> pyval \<Rightarrow> pyval list \<Rightarrow> pyval list \<times> error option" where
  "relpath_all cwd root [] = ([], None)"
| "relpath_all cwd root (x # xs) =
     (case osp_relpath cwd x root of
        Inl e \<Rightarrow> (x # xs, Some e)
      | Inr j \<Rightarrow> (case relpath_all cwd root xs of (ys, e) \<Rightarrow> (PStr j # ys, e)))"

definition relpath_each :: "string \<Rightarrow> pyval \<Rightarrow> pyval \<Rightarrow> pyval \<times> error option" where
  "relpath_each cwd root val =
     (case val of
        PList xs \<Rightarrow> (case relpath_all cwd root xs of (ys, e) \<Rightarrow> (PList ys, e))
      | _ \<Rightarrow> (val, Some TypeError))"

text \<open>The \<^verbatim>\<open>elif\<close> branch of \<^verbatim>\<open>rel_paths\<close>:
  \<^verbatim>\<open>isinstance(utils.safe_list(val)[0], six.string_types) and osp.isabs(val[0])\<close>.\<close>

definition rel_seq :: "string \<Rightarrow> pyval \<Rightarrow> pyval \<Rightarrow> pyval \<times> error option" where
  "rel_seq cwd root val =
     (case safe_list val of
        [] \<Rightarrow> (val, Some IndexError)
      | x # _ \<Rightarrow>
        if is_string x then
          (case py_first val of
             Inl e \<Rightarrow> (val, Some e)
           | Inr v0 \<Rightarrow>
             (case str_of v0 of
                None \<Rightarrow> (val, Some TypeError)
              | Some s0 \<Rightarrow> if isabs s0 then relpath_each cwd root val else (val, None)))
        else (val, None))"

definition rel_value :: "string \<Rightarrow> pyval \<Rightarrow> pyval \<Rightarrow> pyval \<times> error option" where
  "rel_value cwd root val =
     (case str_of val of
        Some s \<Rightarrow>
          if isabs s then
            (case osp_relpath cwd val root of
               Inl e \<Rightarrow> (val, Some e)
             | Inr j \<Rightarrow> (PStr j, None))
          else rel_seq cwd root val
      | None \<Rightarrow> rel_seq cwd root val)"

text \<open>\<^verbatim>\<open>ExperimentsConfig.rel_paths(d, root, project)\<close>, in the same way; the
  first argument is the working directory of the process, which
  \<^verbatim>\<open>osp.relpath\<close> reads for a relative path.\<close>

fun rel_paths :: "string \<Rightarrow> odict \<Rightarrow> odict \<Rightarrow> pyval \<Rightarrow> pyval \<Rightarrow> odict \<times> error option"
and rel_items :: "string \<Rightarrow> odict \<Rightarrow> pyval \<Rightarrow> pyval \<Rightarrow> odict \<Rightarrow> odict \<times> error option" where
  "rel_paths cwd projects d root project =
     (case resolve_root projects d root project of
        Inl e \<Rightarrow> (d, Some e)
      | Inr rp \<Rightarrow> rel_items cwd projects (fst rp) (snd rp) d)"
| "rel_items cwd projects root project [] = ([], None)"
| "rel_items cwd projects root project ((key, val) # rest) =
     (case val of
        PDict sub \<Rightarrow>
          (case rel_paths cwd projects sub root project of
             (sub', Some e) \<Rightarrow> ((key, PDict sub') # rest, Some e)
           | (sub', None) \<Rightarrow>
             (case rel_items cwd projects root project rest of
                (rest', e) \<Rightarrow> ((key, PDict sub') # rest', e)))
      | _ \<Rightarrow>
          if key \<in> set paths then
            (case rel_value cwd root val of
               (val', Some e) \<Rightarrow> ((key, val') # rest, Some e)
             | (val', None) \<Rightarrow>
               (case rel_items cwd projects root project rest of
                  (rest', e) \<Rightarrow> ((key, val') # rest', e)))
          else
            (case rel_items cwd projects root project rest of
               (rest', e) \<Rightarrow> ((key, val) # rest', e)))"

text \<open>Relative paths in normal form, the values \<^verbatim>\<open>osp.relpath\<close> gives back
  unchanged: no component is empty, \<^verbatim>\<open>.\<close> or \<^verbatim>\<open>..\<close> (so the path is not
  empty, does not start or end with a separator and has no doubled one).
  \<open>normal_value\<close> is for a value under a path-like key: such a string, a
  sequence of such strings, a sequence whose first element is not a string, or
  a scalar that is not a string. \<open>normal_doc\<close> asks it of every path-like key,
  at every depth.\<close>

definition normal_rel :: "string \<Rightarrow> bool" where
  "normal_rel v = list_all (\<lambda>c. c \<noteq> [] \<and> c \<noteq> ''.'' \<and> c \<noteq> ''..'') (split_sep v)"

fun normal_value :: "pyval \<Rightarrow> bool" where
  "normal_value (PStr s) = normal_rel s"
| "normal_value (PArchive _ _ _) = False"
| "normal_value (PList []) = False"
| "normal_value (PList (x # xs)) =
     (if is_string x
      then list_all (\<lambda>y. case y of PStr s \<Rightarrow> normal_rel s | _ \<Rightarrow> False) (x # xs)
      else True)"
| "normal_value _ = True"

fun normal_doc :: "odict \<Rightarrow> bool" where
  "normal_doc [] = True"
| "normal_doc ((k, v) # d) =
     ((case v of
         PDict sub \<Rightarrow> normal_doc sub
       | _ \<Rightarrow> (if k \<in> set paths then normal_value v else True))
      \<and> normal_doc d)"

section \<open>Documents as objects: the path normaliser in place\<close>


























section \<open>The file system, the locks and the locked file I/O\<close>

text \<open>
  The file system is the part of the operating system the module talks to: a
  flat name space of paths, where a path names a regular file (with its
  content), a directory (with the names \<^verbatim>\<open>os.listdir\<close> gives for it) or nothing.
  \<open>unwritable\<close> holds the paths the process cannot write (no permission, a
  read-only or full file system).
  The YAML codec is not modelled: a file holds the object \<^verbatim>\<open>yaml.load\<close> gives for
  it, or text the parser rejects. Every call that touches the file system or a
  lock is recorded, in order, in \<open>trace\<close>.
\<close>

datatype content = Yaml pyval | Garbage

datatype event =
    Acquire string
  | Release string
  | Exists string
  | Rename string string
  | OpenRead string
  | OpenWrite string
  | Makedirs string

record world =
  files :: "string \<rightharpoonup> content"
  dirs :: "string \<rightharpoonup> string list"
  unwritable :: "string set"
  trace :: "event list"

definition log :: "event \<Rightarrow> world \<Rightarrow> world" where
  "log e w = w\<lparr>trace := trace w @ [e]\<rparr>"

definition is_path :: "world \<Rightarrow> string \<Rightarrow> bool" where
  "is_path w p = (files w p \<noteq> None \<or> dirs w p \<noteq> None)"

text \<open>\<^verbatim>\<open>osp.exists(p)\<close>.\<close>

definition osp_exists :: "string \<Rightarrow> world \<Rightarrow> bool \<times> world" where
  "osp_exists p w = (is_path w p, log (Exists p) w)"

text \<open>\<^verbatim>\<open>os.rename(src, dst)\<close>: a file replaces a file, and fails on a
  directory; a directory fails on a file and on a directory that is not
  empty. The entries below a renamed directory have paths of their own in the
  flat name space and stay where they are.\<close>

definition os_rename :: "string \<Rightarrow> string \<Rightarrow> world \<Rightarrow> (error + unit) \<times> world" where
  "os_rename src dst w =
     (let w1 = log (Rename src dst) w in
      case files w src of
        Some c \<Rightarrow>
          if dirs w dst \<noteq> None then (Inl OSError, w1)
          else (Inr (), w1\<lparr>files := (files w)(src := None, dst \<mapsto> c)\<rparr>)
      | None \<Rightarrow>
          (case dirs w src of
             None \<Rightarrow> (Inl OSError, w1)
           | Some names \<Rightarrow>
               if files w dst \<noteq> None then (Inl OSError, w1)
               else if dirs w dst \<noteq> None \<and> dirs w dst \<noteq> Some [] then (Inl OSError, w1)
               else (Inr (), w1\<lparr>dirs := (dirs w)(src := None, dst \<mapsto> names)\<rparr>)))"

text \<open>\<^verbatim>\<open>os.makedirs(p)\<close>: fails when the path exists.\<close>

definition os_makedirs :: "string \<Rightarrow> world \<Rightarrow> (error + unit) \<times> world" where
  "os_makedirs p w =
     (let w1 = log (Makedirs p) w in
      if is_path w p then (Inl OSError, w1)
      else (Inr (), w1\<lparr>dirs := (dirs w)(p \<mapsto> [])\<rparr>))"

text \<open>\<^verbatim>\<open>with open(fname) as f: return ordered_yaml_load(f)\<close>.\<close>

definition open_read :: "string \<Rightarrow> world \<Rightarrow> (error + pyval) \<times> world" where
  "open_read fname w =
     (let w1 = log (OpenRead fname) w in
      case files w fname of
        None \<Rightarrow> (Inl IOError, w1)
      | Some Garbage \<Rightarrow> (Inl YAMLError, w1)
      | Some (Yaml v) \<Rightarrow> (Inr v, w1))"

text \<open>\<^verbatim>\<open>with open(fname, 'w') as f: ordered_yaml_dump(d, f)\<close>: a directory
  cannot be opened for writing, and an unwritable path cannot be written.\<close>

definition open_write :: "string \<Rightarrow> pyval \<Rightarrow> world \<Rightarrow> (error + unit) \<times> world" where
  "open_write fname d w =
     (let w1 = log (OpenWrite fname) w in
      if dirs w fname \<noteq> None \<or> fname \<in> unwritable w then (Inl IOError, w1)
      else (Inr (), w1\<lparr>files := (files w)(fname \<mapsto> Yaml d)\<rparr>))"

text \<open>\<^verbatim>\<open>fasteners.InterProcessLock(path)\<close>: \<^verbatim>\<open>acquire()\<close> blocks until the lock
  is free and \<^verbatim>\<open>release()\<close> frees it; in the one process modelled both only
  leave their event.\<close>

definition lock_acquire :: "string \<Rightarrow> world \<Rightarrow> world" where
  "lock_acquire path w = log (Acquire path) w"

definition lock_release :: "string \<Rightarrow> world \<Rightarrow> world" where
  "lock_release path w = log (Release path) w"

text \<open>\<^verbatim>\<open>safe_load(fname)\<close>. \<^verbatim>\<open>fname + '.lck'\<close> raises TypeError for an object
  that is not a string, before any lock exists. The \<^verbatim>\<open>finally\<close> clause releases
  the lock whatever the body does.\<close>

definition safe_load :: "pyval \<Rightarrow> world \<Rightarrow> (error + pyval) \<times> world" where
  "safe_load fname w =
     (case str_of fname of
        None \<Rightarrow> (Inl TypeError, w)
      | Some p \<Rightarrow>
          (let w1 = lock_acquire (p @ ''.lck'') w in
           case open_read p w1 of
             (r, w2) \<Rightarrow> (r, lock_release (p @ ''.lck'') w2)))"

text \<open>\<^verbatim>\<open>safe_dump(d, fname)\<close>: the test for an old file and its renaming come
  first, then the lock is made and acquired, then the file is written inside
  \<^verbatim>\<open>try ... finally: lock.release()\<close>.\<close>

definition safe_dump :: "pyval \<Rightarrow> string \<Rightarrow> world \<Rightarrow> (error + unit) \<times> world" where
  "safe_dump d fname w =
     (case osp_exists fname w of
        (b, w1) \<Rightarrow>
          (case (if b then os_rename fname (fname @ ''~'') w1 else (Inr (), w1)) of
             (Inl e, w2) \<Rightarrow> (Inl e, w2)
           | (Inr _, w2) \<Rightarrow>
               (let w3 = lock_acquire (fname @ ''.lck'') w2 in
                case open_write fname d w3 of
                  (r, w4) \<Rightarrow> (r, lock_release (fname @ ''.lck'') w4))))"

text \<open>Reading a trace. \<open>held k tr\<close> counts the acquisitions of the lock \<open>k\<close> in
  \<open>tr\<close> that no later release matches; \<open>touches p e\<close> holds for a file-system
  call \<open>e\<close> on the path \<open>p\<close>; \<open>guarded k p n tr\<close> holds when every call of \<open>tr\<close>
  that touches \<open>p\<close> happens while the lock \<open>k\<close> is held, \<open>n\<close> being the number of
  holders at the start.\<close>

fun held :: "string \<Rightarrow> nat \<Rightarrow> event list \<Rightarrow> nat" where
  "held k n [] = n"
| "held k n (Acquire k' # tr) = held k (if k' = k then Suc n else n) tr"
| "held k n (Release k' # tr) = held k (if k' = k then n - 1 else n) tr"
| "held k n (_ # tr) = held k n tr"

fun touches :: "string \<Rightarrow> event \<Rightarrow> bool" where
  "touches p (Exists q) = (q = p)"
| "touches p (Rename q r) = (q = p \<or> r = p)"
| "touches p (OpenRead q) = (q = p)"
| "touches p (OpenWrite q) = (q = p)"
| "touches p (Makedirs q) = (q = p)"
| "touches p _ = False"

fun guarded :: "string \<Rightarrow> string \<Rightarrow> nat \<Rightarrow> event list \<Rightarrow> bool" where
  "guarded k p n [] = True"
| "guarded k p n (Acquire k' # tr) = guarded k p (if k' = k then Suc n else n) tr"
| "guarded k p n (Release k' # tr) = guarded k p (if k' = k then n - 1 else n) tr"
| "guarded k p n (e # tr) = ((if touches p e then 0 < n else True) \<and> guarded k p n tr)"

section \<open>More of \<^verbatim>\<open>os.path\<close> and \<^verbatim>\<open>glob\<close>\<close>

text \<open>\<^verbatim>\<open>posixpath.basename(p)\<close>: what follows the last separator.\<close>

definition basename :: "string \<Rightarrow> string" where
  "basename p = rev (takeWhile (\<lambda>c. c \<noteq> sep) (rev p))"

text \<open>\<^verbatim>\<open>posixpath.dirname(p)\<close>: what precedes the last separator, without
  trailing separators unless it consists of separators only.\<close>

definition dirname :: "string \<Rightarrow> string" where
  "dirname p =
     (let head = rev (dropWhile (\<lambda>c. c \<noteq> sep) (rev p)) in
      if head \<noteq> [] \<and> head \<noteq> replicate (length head) sep
      then rev (dropWhile (\<lambda>c. c = sep) (rev head))
      else head)"

text \<open>\<^verbatim>\<open>posixpath.splitext(p)\<close>: the extension starts at the last dot of the
  last component, unless only dots precede it there.\<close>

definition splitext :: "string \<Rightarrow> string \<times> string" where
  "splitext p =
     (let name = basename p;
          ext = rev (takeWhile (\<lambda>c. c \<noteq> CHR ''.'') (rev name));
          stem = take (length name - length ext - 1) name
      in if CHR ''.'' \<in> set name \<and> (\<exists>c \<in> set stem. c \<noteq> CHR ''.'')
         then (take (length p - length ext - 1) p, CHR ''.'' # ext)
         else (p, []))"

text \<open>\<^verbatim>\<open>glob.glob(osp.join(config_path, '*.yml'))\<close> for a directory name without
  pattern characters: the entries of the directory whose names end in
  \<^verbatim>\<open>.yml\<close>, each joined to the directory. As the pattern \<^verbatim>\<open>*.yml\<close> does not
  start with a dot, \<^verbatim>\<open>glob\<close> leaves out the entries whose names start with one.
  A path that is not a directory gives the empty list.\<close>

definition ends_with :: "string \<Rightarrow> string \<Rightarrow> bool" where
  "ends_with suffix s =
     (length suffix \<le> length s \<and> drop (length s - length suffix) s = suffix)"

definition ishidden :: "string \<Rightarrow> bool" where
  "ishidden name = (case name of [] \<Rightarrow> False | c # _ \<Rightarrow> c = CHR ''.'')"

definition glob_yml :: "world \<Rightarrow> string \<Rightarrow> string list" where
  "glob_yml w config_path =
     (case dirs w config_path of
        None \<Rightarrow> []
      | Some names \<Rightarrow>
          map (join config_path)
            (filter (\<lambda>name. ends_with ''.yml'' name \<and> \<not> ishidden name) names))"

section \<open>The projects registry\<close>

text \<open>A \<^verbatim>\<open>ProjectsConfig\<close>: the items of the ordered dictionary and the two
  attributes. \<^verbatim>\<open>project_paths\<close> is what \<^verbatim>\<open>safe_load\<close> gave for
  \<^verbatim>\<open>projects.yml\<close>, or an empty \<^verbatim>\<open>OrderedDict\<close>, or what \<^verbatim>\<open>save\<close> stored.\<close>

record projects_config =
  conf_dir :: string
  project_paths :: pyval
  pitems :: odict

definition all_projects :: "string \<Rightarrow> string" where
  "all_projects cdir = join cdir ''projects.yml''"

text \<open>\<^verbatim>\<open>osp.join(path, '.project', name)\<close>.\<close>

definition project_file :: "pyval \<Rightarrow> string \<Rightarrow> error + string" where
  "project_file path name =
     (case osp_join path (PStr ''.project'') of
        Inl e \<Rightarrow> Inl e
      | Inr cp \<Rightarrow> Inr (join cp name))"

text \<open>The loop of \<^verbatim>\<open>ProjectsConfig.__init__\<close> over \<^verbatim>\<open>project_paths.items()\<close>.\<close>

fun load_projects :: "odict \<Rightarrow> odict \<Rightarrow> world \<Rightarrow> (error + odict) \<times> world" where
  "load_projects [] acc w = (Inr acc, w)"
| "load_projects ((project, path) # rest) acc w =
     (case project_file path ''.project.yml'' of
        Inl e \<Rightarrow> (Inl e, w)
      | Inr fname \<Rightarrow>
          (case safe_load (PStr fname) w of
             (Inl e, w1) \<Rightarrow> (Inl e, w1)
           | (Inr v, w1) \<Rightarrow> load_projects rest (odict_set project v acc) w1))"

text \<open>\<^verbatim>\<open>ProjectsConfig.__init__(conf_dir, d)\<close>. \<^verbatim>\<open>project_paths.items()\<close> needs a
  mapping (AttributeError otherwise).\<close>

definition ProjectsConfig_init ::
  "string \<Rightarrow> odict option \<Rightarrow> world \<Rightarrow> (error + projects_config) \<times> world" where
  "ProjectsConfig_init cdir d w =
     (let fname = all_projects cdir in
      case osp_exists fname w of
        (b, w1) \<Rightarrow>
          (case (if b then safe_load (PStr fname) w1 else (Inr (PDict []), w1)) of
             (Inl e, w2) \<Rightarrow> (Inl e, w2)
           | (Inr pp, w2) \<Rightarrow>
               (case d of
                  Some items \<Rightarrow>
                    (Inr \<lparr>conf_dir = cdir, project_paths = pp,
                          pitems = foldl (\<lambda>acc kv. odict_set (fst kv) (snd kv) acc) [] items\<rparr>, w2)
                | None \<Rightarrow>
                    (case pp of
                       PDict paths_items \<Rightarrow>
                         (case load_projects paths_items [] w2 of
                            (Inl e, w3) \<Rightarrow> (Inl e, w3)
                          | (Inr loaded, w3) \<Rightarrow>
                              (Inr \<lparr>conf_dir = cdir, project_paths = pp, pitems = loaded\<rparr>, w3))
                     | _ \<Rightarrow> (Inl AttributeError, w2)))))"

text \<open>The steps of \<^verbatim>\<open>save\<close> for one file: create the directory of \<open>fname\<close>
  when it does not exist.\<close>

definition ensure_dir :: "string \<Rightarrow> world \<Rightarrow> (error + unit) \<times> world" where
  "ensure_dir fname w =
     (case osp_exists (dirname fname) w of
        (b, w1) \<Rightarrow> if \<not> b then os_makedirs (dirname fname) w1 else (Inr (), w1))"

text \<open>The loop of \<^verbatim>\<open>ProjectsConfig.save\<close>. \<open>self_paths\<close> is
  \<^verbatim>\<open>self.project_paths\<close> and \<open>local_paths\<close> the local variable
  \<^verbatim>\<open>project_paths\<close>, which starts as an empty \<^verbatim>\<open>OrderedDict\<close>. For a value that is a
  mapping the loop writes the project file and runs
  \<^verbatim>\<open>project_paths[project] = project_path\<close>; for any other value it runs
  \<^verbatim>\<open>project_paths = self.project_paths[project]\<close>.\<close>

fun save_projects :: "odict \<Rightarrow> pyval \<Rightarrow> pyval \<Rightarrow> world \<Rightarrow> (error + pyval) \<times> world" where
  "save_projects [] self_paths local_paths w = (Inr local_paths, w)"
| "save_projects ((project, d) # rest) self_paths local_paths w =
     (if is_dict d then
        (case py_getitem d ''root'' of
           Inl e \<Rightarrow> (Inl e, w)
         | Inr project_path \<Rightarrow>
             (case project_file project_path ''.project.yml'' of
                Inl e \<Rightarrow> (Inl e, w)
              | Inr fname \<Rightarrow>
                  (case ensure_dir fname w of
                     (Inl e, w1) \<Rightarrow> (Inl e, w1)
                   | (Inr _, w1) \<Rightarrow>
                       (case osp_exists fname w1 of
                          (b, w2) \<Rightarrow>
                            (case (if b then os_rename fname (fname @ ''~'') w2
                                   else (Inr (), w2)) of
                               (Inl e, w3) \<Rightarrow> (Inl e, w3)
                             | (Inr _, w3) \<Rightarrow>
                                 (case safe_dump d fname w3 of
                                    (Inl e, w4) \<Rightarrow> (Inl e, w4)
                                  | (Inr _, w4) \<Rightarrow>
                                      (case py_setitem local_paths project project_path of
                                         Inl e \<Rightarrow> (Inl e, w4)
                                       | Inr pp \<Rightarrow>
                                           save_projects rest self_paths pp w4)))))))
      else
        (case py_getitem self_paths project of
           Inl e \<Rightarrow> (Inl e, w)
         | Inr pp \<Rightarrow> save_projects rest self_paths pp w))"

text \<open>\<^verbatim>\<open>ProjectsConfig.save()\<close>: the registry after the call, the error if the
  call raised, and the world.\<close>

definition ProjectsConfig_save ::
  "projects_config \<Rightarrow> world \<Rightarrow> error option \<times> projects_config \<times> world" where
  "ProjectsConfig_save P w =
     (case save_projects (pitems P) (project_paths P) (PDict []) w of
        (Inl e, w1) \<Rightarrow> (Some e, P, w1)
      | (Inr pp, w1) \<Rightarrow>
          (case safe_dump pp (all_projects (conf_dir P)) w1 of
             (Inl e, w2) \<Rightarrow> (Some e, P\<lparr>project_paths := pp\<rparr>, w2)
           | (Inr _, w2) \<Rightarrow> (None, P\<lparr>project_paths := pp\<rparr>, w2)))"

text \<open>What the claim asks of the index: the object stored in
  \<^verbatim>\<open>projects.yml\<close> is a mapping with an entry for every name of the registry.\<close>

definition index_covers :: "world \<Rightarrow> projects_config \<Rightarrow> bool" where
  "index_covers w P =
     (case files w (all_projects (conf_dir P)) of
        Some (Yaml (PDict idx)) \<Rightarrow> list_all (\<lambda>kv. map_of idx (fst kv) \<noteq> None) (pitems P)
      | _ \<Rightarrow> False)"

section \<open>The experiments registry\<close>

text \<open>An \<^verbatim>\<open>ExperimentsConfig\<close>: the items of the ordered dictionary, the
  projects registry it refers to (which it only reads), and \<^verbatim>\<open>_project_map\<close>,
  a \<^verbatim>\<open>defaultdict(list)\<close>: a total function from keys to lists of experiment
  names, the empty list for a key never used.\<close>

type_synonym pmap = "pyval \<Rightarrow> string list"

record experiments_config =
  projects :: projects_config
  project_map' :: pmap
  finalized :: bool
  eitems :: odict

text \<open>The key an object is as a dictionary key: sequences and mappings are
  not hashable; an Archive is equal to the string it holds and a boolean to
  the integer it is.\<close>

fun hashkey :: "pyval \<Rightarrow> error + pyval" where
  "hashkey (PList _) = Inl TypeError"
| "hashkey (PDict _) = Inl TypeError"
| "hashkey (PArchive s _ _) = Inr (PStr s)"
| "hashkey (PBool b) = Inr (PInt (if b then 1 else 0))"
| "hashkey v = Inr v"

text \<open>\<^verbatim>\<open>Archive.project\<close> as a key: the name, or \<^verbatim>\<open>None\<close>.\<close>

definition project_key :: "string option \<Rightarrow> pyval" where
  "project_key p = (case p of None \<Rightarrow> PNone | Some name \<Rightarrow> PStr name)"

text \<open>\<^verbatim>\<open>if key not in m[k]: m[k].append(key)\<close>.\<close>

definition add_exp :: "pyval \<Rightarrow> string \<Rightarrow> pmap \<Rightarrow> pmap" where
  "add_exp k key m = (if key \<notin> set (m k) then m(k := m k @ [key]) else m)"

text \<open>The loop of the property \<^verbatim>\<open>project_map\<close> over \<^verbatim>\<open>self.items()\<close>, which
  gives the stored values as they are. \<^verbatim>\<open>val['project']\<close> raises KeyError for
  a mapping without that key; the map keeps what the loop added before.\<close>

fun fold_project_map :: "pmap \<Rightarrow> odict \<Rightarrow> pmap \<times> error option" where
  "fold_project_map m [] = (m, None)"
| "fold_project_map m ((key, val) # rest) =
     (case val of
        PDict d \<Rightarrow>
          (case map_of d ''project'' of
             None \<Rightarrow> (m, Some KeyError)
           | Some p \<Rightarrow>
               (case hashkey p of
                  Inl e \<Rightarrow> (m, Some e)
                | Inr k \<Rightarrow> fold_project_map (add_exp k key m) rest))
      | PArchive _ p _ \<Rightarrow> fold_project_map (add_exp (project_key p) key m) rest
      | _ \<Rightarrow> fold_project_map m rest)"

text \<open>The property \<^verbatim>\<open>project_map\<close>: it updates \<^verbatim>\<open>self._project_map\<close> and
  returns it.\<close>

definition project_map :: "experiments_config \<Rightarrow> (error + pmap) \<times> experiments_config" where
  "project_map E =
     (case fold_project_map (project_map' E) (eitems E) of
        (m, Some e) \<Rightarrow> (Inl e, E\<lparr>project_map' := m\<rparr>)
      | (m, None) \<Rightarrow> (Inr m, E\<lparr>project_map' := m\<rparr>))"

text \<open>\<^verbatim>\<open>ExperimentsConfig.__setitem__(key, val)\<close>.\<close>

definition setitem ::
  "experiments_config \<Rightarrow> string \<Rightarrow> pyval \<Rightarrow> error option \<times> experiments_config" where
  "setitem E key val =
     (if is_archive val then
        (case project_map E of
           (Inl e, E1) \<Rightarrow> (Some e, E1)
         | (Inr _, E1) \<Rightarrow> (None, E1\<lparr>eitems := odict_set key val (eitems E1)\<rparr>))
      else (None, E\<lparr>eitems := odict_set key val (eitems E)\<rparr>))"

text \<open>\<^verbatim>\<open>for key, val in items: self[key] = val\<close>.\<close>

fun setitems :: "experiments_config \<Rightarrow> odict \<Rightarrow> error option \<times> experiments_config" where
  "setitems E [] = (None, E)"
| "setitems E ((key, val) # rest) =
     (case setitem E key val of
        (Some e, E1) \<Rightarrow> (Some e, E1)
      | (None, E1) \<Rightarrow> setitems E1 rest)"

text \<open>\<^verbatim>\<open>ExperimentsConfig.__getitem__(attr)\<close>. The loaded object is stored under
  \<open>attr\<close> first and \<^verbatim>\<open>fix_paths\<close> then changes it in place, so the registry
  holds the dictionary as \<^verbatim>\<open>fix_paths\<close> left it, also when that call raised.\<close>

definition getitem ::
  "experiments_config \<Rightarrow> string \<Rightarrow> world \<Rightarrow> (error + pyval) \<times> experiments_config \<times> world" where
  "getitem E attr w =
     (case map_of (eitems E) attr of
        None \<Rightarrow> (Inl KeyError, E, w)
      | Some ret \<Rightarrow>
          if \<not> (is_dict ret \<or> is_archive ret) then
            (case safe_load ret w of
               (Inl e, w1) \<Rightarrow> (Inl e, E, w1)
             | (Inr d, w1) \<Rightarrow>
                 (case setitem E attr d of
                    (Some e, E1) \<Rightarrow> (Inl e, E1, w1)
                  | (None, E1) \<Rightarrow>
                      (case d of
                         PDict items \<Rightarrow>
                           (case fix_paths (pitems (projects E1)) items PNone PNone of
                              (items', err) \<Rightarrow>
                                (let E2 = E1\<lparr>eitems := odict_set attr (PDict items') (eitems E1)\<rparr>
                                 in case err of
                                      Some e \<Rightarrow> (Inl e, E2, w1)
                                    | None \<Rightarrow> (Inr (PDict items'), E2, w1)))
                       | _ \<Rightarrow> (Inr d, E1, w1))))
          else (Inr ret, E, w))"

definition exp_file :: "experiments_config \<Rightarrow> string" where
  "exp_file E = join (conf_dir (projects E)) ''experiments.yml''"

text \<open>\<^verbatim>\<open>exp = osp.splitext(osp.basename(fname))[0]\<close>.\<close>

definition exp_name :: "string \<Rightarrow> string" where
  "exp_name fname = fst (splitext (basename fname))"

text \<open>\<^verbatim>\<open>if not isinstance(ret.get(exp), Archive): ret[exp] = osp.join(config_path, exp + '.yml')\<close>.\<close>

definition record_exp :: "string \<Rightarrow> string \<Rightarrow> odict \<Rightarrow> odict" where
  "record_exp config_path exp ret =
     (if \<not> (case map_of ret exp of None \<Rightarrow> False | Some v \<Rightarrow> is_archive v)
      then odict_set exp (PStr (join config_path (exp @ ''.yml''))) ret
      else ret)"

text \<open>The inner loop of the property \<^verbatim>\<open>exp_files\<close>, over the files
  \<^verbatim>\<open>glob\<close> gave for one project.\<close>

fun scan_files :: "string \<Rightarrow> string \<Rightarrow> string list \<Rightarrow> odict \<Rightarrow> pmap \<Rightarrow> odict \<times> pmap" where
  "scan_files project config_path [] ret m = (ret, m)"
| "scan_files project config_path (fname # fnames) ret m =
     (if fname = ''.project.yml'' then scan_files project config_path fnames ret m
      else scan_files project config_path fnames
             (record_exp config_path (exp_name fname) ret)
             (add_exp (PStr project) (exp_name fname) m))"

text \<open>The outer loop, over \<^verbatim>\<open>self.projects.items()\<close>.\<close>

fun scan_projects ::
  "odict \<Rightarrow> odict \<Rightarrow> pmap \<Rightarrow> world \<Rightarrow> (error + odict \<times> pmap) \<times> world" where
  "scan_projects [] ret m w = (Inr (ret, m), w)"
| "scan_projects ((project, d) # rest) ret m w =
     (case py_getitem d ''root'' of
        Inl e \<Rightarrow> (Inl e, w)
      | Inr project_path \<Rightarrow>
          (case osp_join project_path (PStr ''.project'') of
             Inl e \<Rightarrow> (Inl e, w)
           | Inr config_path \<Rightarrow>
               (case osp_exists config_path w of
                  (b, w1) \<Rightarrow>
                    if \<not> b then scan_projects rest ret m w1
                    else
                      (case scan_files project config_path (glob_yml w1 config_path) ret m of
                         (ret', m') \<Rightarrow> scan_projects rest ret' m' w1))))"

text \<open>The first part of \<^verbatim>\<open>exp_files\<close>: the items of the master index
  \<^verbatim>\<open>experiments.yml\<close>, when that file exists.\<close>

definition load_index :: "experiments_config \<Rightarrow> world \<Rightarrow> (error + odict) \<times> world" where
  "load_index E w =
     (case osp_exists (exp_file E) w of
        (b, w1) \<Rightarrow>
          if b then
            (case safe_load (PStr (exp_file E)) w1 of
               (Inl e, w2) \<Rightarrow> (Inl e, w2)
             | (Inr (PDict items), w2) \<Rightarrow>
                 (Inr (foldl (\<lambda>acc kv. odict_set (fst kv) (snd kv) acc) [] items), w2)
             | (Inr _, w2) \<Rightarrow> (Inl AttributeError, w2))
          else (Inr [], w1))"

text \<open>The property \<^verbatim>\<open>exp_files\<close>: the ordered dictionary it returns and the
  \<^verbatim>\<open>_project_map\<close> it leaves.\<close>

definition exp_files ::
  "experiments_config \<Rightarrow> world \<Rightarrow> (error + odict \<times> pmap) \<times> world" where
  "exp_files E w =
     (case load_index E w of
        (Inl e, w1) \<Rightarrow> (Inl e, w1)
      | (Inr ret, w1) \<Rightarrow> scan_projects (pitems (projects E)) ret (project_map' E) w1)"

text \<open>\<^verbatim>\<open>ExperimentsConfig.__init__(projects, d, project_map)\<close>. An empty
  projects registry is false, and then nothing is stored.\<close>

definition ExperimentsConfig_init ::
  "projects_config \<Rightarrow> odict option \<Rightarrow> pmap option \<Rightarrow> world
     \<Rightarrow> (error + experiments_config) \<times> world" where
  "ExperimentsConfig_init P d pm w =
     (let E = \<lparr>projects = P,
               project_map' = (case pm of None \<Rightarrow> (\<lambda>_. []) | Some m \<Rightarrow> m),
               finalized = False, eitems = []\<rparr>
      in if pitems P \<noteq> [] then
           (case d of
              Some items \<Rightarrow>
                (case setitems E items of
                   (Some e, _) \<Rightarrow> (Inl e, w)
                 | (None, E1) \<Rightarrow> (Inr E1, w))
            | None \<Rightarrow>
                (case exp_files E w of
                   (Inl e, w1) \<Rightarrow> (Inl e, w1)
                 | (Inr (ret, m), w1) \<Rightarrow>
                     (case setitems (E\<lparr>project_map' := m\<rparr>) ret of
                        (Some e, _) \<Rightarrow> (Inl e, w1)
                      | (None, E1) \<Rightarrow> (Inr E1, w1))))
         else (Inr E, w))"

text \<open>\<^verbatim>\<open>dict(self)\<close> at the head of \<^verbatim>\<open>save\<close>: the copy is made from the keys
  and \<^verbatim>\<open>self[key]\<close>, so every reference is loaded, in order.\<close>

fun realize ::
  "string list \<Rightarrow> experiments_config \<Rightarrow> world
     \<Rightarrow> (error + odict) \<times> experiments_config \<times> world" where
  "realize [] E w = (Inr [], E, w)"
| "realize (key # keys) E w =
     (case getitem E key w of
        (Inl e, E1, w1) \<Rightarrow> (Inl e, E1, w1)
      | (Inr v, E1, w1) \<Rightarrow>
          (case realize keys E1 w1 of
             (Inl e, E2, w2) \<Rightarrow> (Inl e, E2, w2)
           | (Inr snapshot, E2, w2) \<Rightarrow> (Inr ((key, v) # snapshot), E2, w2)))"

text \<open>The first loop of \<^verbatim>\<open>ExperimentsConfig.save\<close>. \<open>d\<close> is the object the
  registry holds under \<open>exp\<close>, and \<^verbatim>\<open>rel_paths\<close> changes it in place: the
  registry holds the changed dictionary afterwards.\<close>

fun save_experiments ::
  "string \<Rightarrow> odict \<Rightarrow> experiments_config \<Rightarrow> world
     \<Rightarrow> error option \<times> experiments_config \<times> world" where
  "save_experiments cwd [] E w = (None, E, w)"
| "save_experiments cwd ((exp, d) # rest) E w =
     (case d of
        PDict items \<Rightarrow>
          (case map_of items ''project'' of
             None \<Rightarrow> (Some KeyError, E, w)
           | Some p \<Rightarrow>
               (case lookup_root (pitems (projects E)) p of
                  Inl e \<Rightarrow> (Some e, E, w)
                | Inr project_path \<Rightarrow>
                    (case rel_paths cwd (pitems (projects E)) items PNone PNone of
                       (items', err) \<Rightarrow>
                         (let E1 = E\<lparr>eitems := odict_set exp (PDict items') (eitems E)\<rparr>
                          in case err of
                               Some e \<Rightarrow> (Some e, E1, w)
                             | None \<Rightarrow>
                                 (case project_file project_path (exp @ ''.yml'') of
                                    Inl e \<Rightarrow> (Some e, E1, w)
                                  | Inr fname \<Rightarrow>
                                      (case ensure_dir fname w of
                                         (Inl e, w1) \<Rightarrow> (Some e, E1, w1)
                                       | (Inr _, w1) \<Rightarrow>
                                           (case safe_dump (PDict items') fname w1 of
                                              (Inl e, w2) \<Rightarrow> (Some e, E1, w2)
                                            | (Inr _, w2) \<Rightarrow>
                                                save_experiments cwd rest E1 w2)))))))
      | _ \<Rightarrow> save_experiments cwd rest E w)"

text \<open>The master index \<^verbatim>\<open>save\<close> writes: every name with its Archive, or with
  \<^verbatim>\<open>None\<close>.\<close>

definition master_index :: "odict \<Rightarrow> odict" where
  "master_index items = map (\<lambda>kv. (fst kv, if is_archive (snd kv) then snd kv else PNone)) items"

text \<open>\<^verbatim>\<open>ExperimentsConfig.save()\<close>. The lock of the master index is acquired,
  \<^verbatim>\<open>safe_dump\<close> is called, and the lock is released by the statement after the
  call: when \<^verbatim>\<open>safe_dump\<close> raises, that statement is not reached.\<close>

definition ExperimentsConfig_save ::
  "string \<Rightarrow> experiments_config \<Rightarrow> world \<Rightarrow> error option \<times> experiments_config \<times> world" where
  "ExperimentsConfig_save cwd E w =
     (case realize (map fst (eitems E)) E w of
        (Inl e, E1, w1) \<Rightarrow> (Some e, E1, w1)
      | (Inr snapshot, E1, w1) \<Rightarrow>
          (case save_experiments cwd snapshot E1 w1 of
             (Some e, E2, w2) \<Rightarrow> (Some e, E2, w2)
           | (None, E2, w2) \<Rightarrow>
               (let w3 = lock_acquire (exp_file E2 @ ''.lck'') w2 in
                case safe_dump (PDict (master_index (eitems E2))) (exp_file E2) w3 of
                  (Inl e, w4) \<Rightarrow> (Some e, E2, w4)
                | (Inr _, w4) \<Rightarrow> (None, E2, lock_release (exp_file E2 @ ''.lck'') w4))))"



text \<open>The files the scan finds for one item of the projects registry:
  \<^verbatim>\<open>glob.glob(osp.join(d['root'], '.project', '*.yml'))\<close>.\<close>

definition scanned :: "world \<Rightarrow> string \<times> pyval \<Rightarrow> string list" where
  "scanned w pd =
     (case py_getitem (snd pd) ''root'' of
        Inl _ \<Rightarrow> []
      | Inr root \<Rightarrow>
          (case osp_join root (PStr ''.project'') of
             Inl _ \<Rightarrow> []
           | Inr cp \<Rightarrow> glob_yml w cp))"

section \<open>Example states\<close>

text \<open>An empty file system, and one project \<^verbatim>\<open>P\<close> rooted at \<^verbatim>\<open>/proj\<close>.\<close>

definition empty_world :: world where
  "empty_world = \<lparr>files = Map.empty, dirs = Map.empty, unwritable = {}, trace = []\<rparr>"

definition one_project :: projects_config where
  "one_project =
     \<lparr>conf_dir = ''/c'', project_paths = PDict [(''P'', PStr ''/proj'')],
      pitems = [(''P'', PDict [(''root'', PStr ''/proj'')])]\<rparr>"


text \<open>A projects registry whose only value is a reference that was never
  loaded, with the root known from \<^verbatim>\<open>projects.yml\<close>.\<close>

definition pending_project :: projects_config where
  "pending_project =
     \<lparr>conf_dir = ''/c'', project_paths = PDict [(''b'', PStr ''/b'')],
      pitems = [(''b'', PStr ''/b/.project/.project.yml'')]\<rparr>"

text \<open>An experiments registry without experiments, and a file system where
  the master index cannot be written.\<close>

definition no_experiments :: experiments_config where
  "no_experiments =
     \<lparr>projects = one_project, project_map' = (\<lambda>_. []), finalized = False, eitems = []\<rparr>"

definition index_unwritable :: world where
  "index_unwritable =
     \<lparr>files = Map.empty, dirs = Map.empty, unwritable = {''/c/experiments.yml''}, trace = []\<rparr>"

text \<open>A file system where \<^verbatim>\<open>/c/x.yml\<close> exists.\<close>

definition old_file :: world where
  "old_file =
     \<lparr>files = [''/c/x.yml'' \<mapsto> Yaml PNone], dirs = Map.empty, unwritable = {}, trace = []\<rparr>"

text \<open>An experiments registry with one reference that was never loaded, and
  a file system where the file it names holds a document without the keys
  \<^verbatim>\<open>project\<close> and \<^verbatim>\<open>root\<close>.\<close>

definition pending_exp :: experiments_config where
  "pending_exp =
     \<lparr>projects = one_project, project_map' = (\<lambda>_. []), finalized = False,
      eitems = [(''exp'', PStr ''/proj/.project/exp.yml'')]\<rparr>"

definition rootless_file :: world where
  "rootless_file =
     \<lparr>files = [''/proj/.project/exp.yml'' \<mapsto> Yaml (PDict [(''outdir'', PStr ''out'')])],
      dirs = Map.empty, unwritable = {}, trace = []\<rparr>"

text \<open>An experiments registry with two documents of the project of
  \<^verbatim>\<open>one_project\<close>.\<close>

definition two_experiments :: experiments_config where
  "two_experiments =
     \<lparr>projects = one_project, project_map' = (\<lambda>_. []), finalized = False,
      eitems = [(''exp'', PDict [(''project'', PStr ''P'')]),
                (''other'', PDict [(''project'', PStr ''P'')])]\<rparr>"

text \<open>The experiment document of the spec's example, with a nested mapping.\<close>

definition example_doc :: odict where
  "example_doc =
     [(''project'', PStr ''P''), (''outdir'', PStr ''out''),
      (''sub'', PDict [(''data'', PList [PStr ''a/b'', PStr ''c''])])]"




section \<open>Properties of the path normaliser\<close>

lemmas io_defs =
  safe_dump_def safe_load_def osp_exists_def is_path_def os_rename_def open_write_def
  open_read_def lock_acquire_def lock_release_def log_def os_makedirs_def

lemmas path_defs = join_def isabs_def sep_def

lemma odict_induct [case_names Nil Cons]:
  assumes "P []"
    and "\<And>k v rest. (\<And>sub. v = PDict sub \<Longrightarrow> P sub) \<Longrightarrow> P rest \<Longrightarrow> P ((k, v) # rest)"
  shows "P (d :: odict)"
proof (induction "size (PDict d)" arbitrary: d rule: less_induct)
  case less
  show ?case
  proof (cases d)
    case Nil
    with assms(1) show ?thesis by simp
  next
    case (Cons kv rest)
    obtain k v where kv: "kv = (k, v)" by (cases kv)
    have "P rest" using less [of rest] Cons by simp
    moreover have "P sub" if "v = PDict sub" for sub
      using less [of sub] Cons kv that by simp
    ultimately show ?thesis using assms(2) Cons kv by simp
  qed
qed

lemma fix_items_nondict:
  "\<not> is_dict val \<Longrightarrow>
   fix_items ps root project ((key, val) # rest) =
     (if key \<in> set paths then
        (case fix_value root val of
           (val', Some e) \<Rightarrow> ((key, val') # rest, Some e)
         | (val', None) \<Rightarrow>
           (case fix_items ps root project rest of
              (rest', e) \<Rightarrow> ((key, val') # rest', e)))
      else
        (case fix_items ps root project rest of
           (rest', e) \<Rightarrow> ((key, val) # rest', e)))"
  by (cases val) simp_all

lemma rel_items_nondict:
  "\<not> is_dict val \<Longrightarrow>
   rel_items cwd ps root project ((key, val) # rest) =
     (if key \<in> set paths then
        (case rel_value cwd root val of
           (val', Some e) \<Rightarrow> ((key, val') # rest, Some e)
         | (val', None) \<Rightarrow>
           (case rel_items cwd ps root project rest of
              (rest', e) \<Rightarrow> ((key, val') # rest', e)))
      else
        (case rel_items cwd ps root project rest of
           (rest', e) \<Rightarrow> ((key, val) # rest', e)))"
  by (cases val) simp_all

text \<open>
  Claim C7. A document with an empty sequence under a path-like key: both
  \<^verbatim>\<open>fix_paths\<close> and \<^verbatim>\<open>rel_paths\<close> leave the value as it is, but neither
  completes: \<^verbatim>\<open>utils.safe_list(val)[0]\<close> raises IndexError.
\<close>

theorem empty_sequence_raises:
  "fix_paths ps [(''src'', PList [])] (PStr ''/proj'') PNone
     = ([(''src'', PList [])], Some IndexError) \<and>
   rel_paths cwd ps [(''src'', PList [])] (PStr ''/proj'') PNone
     = ([(''src'', PList [])], Some IndexError)"
  by (simp add: resolve_root_def paths_def fix_value_def fix_seq_def rel_value_def rel_seq_def)

lemma osp_relpath_str: "osp_relpath cwd (PStr x) (PStr y) = relpath cwd x y"
  by (simp add: osp_relpath_def relpath_def)

lemma split_sep_nonempty: "split_sep s \<noteq> []"
  by (induction s) auto

lemma split_sep_no_sep: "c \<in> set (split_sep s) \<Longrightarrow> sep \<notin> set c"
proof (induction s arbitrary: c)
  case Nil
  then show ?case by simp
next
  case (Cons a s)
  show ?case
  proof (cases "a = sep")
    case True
    with Cons show ?thesis by auto
  next
    case False
    have ne: "split_sep s \<noteq> []" by (rule split_sep_nonempty)
    from Cons.prems False have "c = a # hd (split_sep s) \<or> c \<in> set (tl (split_sep s))"
      by simp
    then show ?thesis
    proof
      assume "c = a # hd (split_sep s)"
      moreover have "sep \<notin> set (hd (split_sep s))"
        using Cons.IH [of "hd (split_sep s)"] ne by simp
      ultimately show ?thesis using False by auto
    next
      assume "c \<in> set (tl (split_sep s))"
      then have "c \<in> set (split_sep s)" using ne by (meson list.set_sel(2))
      then show ?thesis by (rule Cons.IH)
    qed
  qed
qed

lemma split_sep_append: "split_sep (a @ sep # b) = split_sep a @ split_sep b"
proof (induction a)
  case Nil
  show ?case by simp
next
  case (Cons c a)
  have ne: "split_sep a \<noteq> []" by (rule split_sep_nonempty)
  show ?case using Cons ne by (cases "split_sep a") auto
qed

lemma split_sep_sepfree: "sep \<notin> set c \<Longrightarrow> split_sep c = [c]"
  by (induction c) auto

lemma sep_join_Cons: "cs \<noteq> [] \<Longrightarrow> sep_join (c # cs) = c @ sep # sep_join cs"
  by (cases cs) simp_all

lemma sep_join_split: "sep_join (split_sep s) = s"
proof (induction s)
  case Nil
  show ?case by simp
next
  case (Cons c s)
  have ne: "split_sep s \<noteq> []" by (rule split_sep_nonempty)
  then obtain x xs where r: "split_sep s = x # xs" by (cases "split_sep s") auto
  show ?case
  proof (cases "c = sep")
    case True
    then show ?thesis using Cons ne by (simp add: sep_join_Cons)
  next
    case False
    then show ?thesis using Cons r by (cases xs) auto
  qed
qed

lemma split_sep_join_comps:
  "cs \<noteq> [] \<Longrightarrow> \<forall>c \<in> set cs. sep \<notin> set c \<Longrightarrow> split_sep (sep_join cs) = cs"
proof (induction cs rule: sep_join.induct)
  case 1
  then show ?case by simp
next
  case (2 c)
  then show ?case by (simp add: split_sep_sepfree)
next
  case (3 c v va)
  then show ?case by (simp add: split_sep_append split_sep_sepfree)
qed

lemma split_sep_replicate: "split_sep (replicate k sep @ s) = replicate k [] @ split_sep s"
  by (induction k) auto

lemma filter_comps:
  assumes "\<forall>c \<in> set cs. c \<noteq> [] \<and> sep \<notin> set c"
  shows "filter (\<lambda>x. x \<noteq> []) (split_sep (replicate k sep @ sep_join cs)) = cs"
proof (cases cs)
  case Nil
  have "split_sep (replicate k sep) = replicate k [] @ [[]]"
    using split_sep_replicate [of k "[]"] by simp
  with Nil show ?thesis by simp
next
  case (Cons a list)
  then have "split_sep (sep_join cs) = cs"
    using assms by (intro split_sep_join_comps) auto
  moreover have "filter (\<lambda>x. x \<noteq> []) cs = cs"
    using assms by (simp add: filter_id_conv)
  ultimately show ?thesis by (simp add: split_sep_replicate)
qed

lemma norm_comps_append:
  "norm_comps sl acc (xs @ ys) = norm_comps sl (norm_comps sl acc xs) ys"
  by (induction xs arbitrary: acc) auto

lemma norm_comps_normal:
  "list_all (\<lambda>c. c \<noteq> [] \<and> c \<noteq> ''.'' \<and> c \<noteq> ''..'') ys \<Longrightarrow> norm_comps sl acc ys = acc @ ys"
  by (induction ys arbitrary: acc) auto

lemma norm_comps_props:
  "\<forall>c \<in> set acc. c \<noteq> [] \<and> sep \<notin> set c \<Longrightarrow> \<forall>c \<in> set cs. sep \<notin> set c \<Longrightarrow>
   \<forall>c \<in> set (norm_comps sl acc cs). c \<noteq> [] \<and> sep \<notin> set c"
proof (induction cs arbitrary: acc)
  case Nil
  then show ?case by simp
next
  case (Cons a cs)
  have bl: "\<forall>c \<in> set (butlast acc). c \<noteq> [] \<and> sep \<notin> set c"
    using Cons.prems(1) by (meson in_set_butlastD)
  have ap: "a \<noteq> [] \<Longrightarrow> \<forall>c \<in> set (acc @ [a]). c \<noteq> [] \<and> sep \<notin> set c"
    using Cons.prems by auto
  have rest: "\<forall>c \<in> set cs. sep \<notin> set c" using Cons.prems(2) by simp
  show ?case
    using Cons.IH [OF Cons.prems(1) rest] Cons.IH [OF bl rest] Cons.IH [OF ap rest]
    by auto
qed

lemma normpath_abs:
  assumes "isabs p"
  shows "\<exists>k. normpath p = replicate k sep @ sep_join (norm_comps True [] (split_sep p))"
proof -
  from assms have ne: "p \<noteq> []" by (auto simp: isabs_def)
  show ?thesis
  proof (cases "take 2 p = [sep, sep] \<and> take 3 p \<noteq> [sep, sep, sep]")
    case True
    with assms ne have "normpath p = replicate 2 sep @ sep_join (norm_comps True [] (split_sep p))"
      by (simp add: normpath_def Let_def)
    then show ?thesis by blast
  next
    case False
    with assms ne have "normpath p = replicate 1 sep @ sep_join (norm_comps True [] (split_sep p))"
      by (auto simp add: normpath_def Let_def)
    then show ?thesis by blast
  qed
qed

lemma abs_comps:
  assumes "isabs p"
  shows "filter (\<lambda>x. x \<noteq> []) (split_sep (abspath cwd p)) = norm_comps True [] (split_sep p)"
proof -
  obtain k where k: "normpath p = replicate k sep @ sep_join (norm_comps True [] (split_sep p))"
    using normpath_abs [OF assms] by blast
  have "\<forall>c \<in> set (norm_comps True [] (split_sep p)). c \<noteq> [] \<and> sep \<notin> set c"
    by (rule norm_comps_props) (auto dest: split_sep_no_sep)
  then show ?thesis using assms k by (simp add: abspath_def filter_comps)
qed

lemma commonprefix_append: "commonprefix xs (xs @ ys) = xs"
  by (induction xs) auto

lemma foldl_join_comps:
  "a \<noteq> [] \<Longrightarrow> last a \<noteq> sep \<Longrightarrow> \<forall>c \<in> set p. c \<noteq> [] \<and> sep \<notin> set c \<Longrightarrow>
   foldl join a p = a @ concat (map (\<lambda>c. sep # c) p)"
proof (induction p arbitrary: a)
  case Nil
  then show ?case by simp
next
  case (Cons c p)
  from Cons.prems have c: "c \<noteq> []" "sep \<notin> set c" by auto
  then have nabs: "\<not> isabs c" by (cases c) (auto simp: isabs_def)
  have j: "join a c = a @ sep # c" using Cons.prems(1,2) nabs by (simp add: join_def)
  have "last (a @ sep # c) \<noteq> sep" using c by (metis last_appendR last_in_set list.discI last_ConsR)
  then have "foldl join (a @ sep # c) p = (a @ sep # c) @ concat (map (\<lambda>c. sep # c) p)"
    using Cons.prems(3) by (intro Cons.IH) auto
  then show ?case using j by simp
qed

lemma sep_join_concat: "sep_join (a # p) = a @ concat (map (\<lambda>c. sep # c) p)"
  by (induction p arbitrary: a) (simp_all add: sep_join_Cons)

lemma join_list_comps:
  assumes "cs \<noteq> []" and "\<forall>c \<in> set cs. c \<noteq> [] \<and> sep \<notin> set c"
  shows "join_list cs = sep_join cs"
proof -
  obtain a p where cs: "cs = a # p" using assms(1) by (cases cs) auto
  have "last a \<noteq> sep" using assms(2) cs by (metis last_in_set list.set_intros(1))
  then show ?thesis using assms(2) cs by (simp add: foldl_join_comps sep_join_concat)
qed

lemma normal_rel_props:
  assumes "normal_rel v"
  shows "v \<noteq> []" and "\<not> isabs v"
proof -
  show "v \<noteq> []" using assms by (auto simp: normal_rel_def)
  show "\<not> isabs v" using assms by (cases v) (auto simp: normal_rel_def isabs_def)
qed

lemma join_comps:
  assumes "isabs r" and "normal_rel v"
  shows "norm_comps True [] (split_sep (join r v)) = norm_comps True [] (split_sep r) @ split_sep v"
proof -
  from assms(1) have rne: "r \<noteq> []" by (auto simp: isabs_def)
  have nabs: "\<not> isabs v" by (rule normal_rel_props [OF assms(2)])
  have nv: "list_all (\<lambda>c. c \<noteq> [] \<and> c \<noteq> ''.'' \<and> c \<noteq> ''..'') (split_sep v)"
    using assms(2) by (simp add: normal_rel_def)
  show ?thesis
  proof (cases "last r = sep")
    case True
    then have r: "r = butlast r @ sep # []" using rne by (metis append_butlast_last_id)
    have j: "join r v = butlast r @ sep # v"
      using True nabs rne r by (metis append.assoc append_Cons append_Nil join_def)
    have sr: "split_sep r = split_sep (butlast r) @ [[]]"
      using split_sep_append [of "butlast r" "[]"] r by simp
    show ?thesis
      unfolding j split_sep_append sr norm_comps_append
      by (simp add: norm_comps_normal [OF nv])
  next
    case False
    then have j: "join r v = r @ sep # v" using nabs rne by (simp add: join_def)
    show ?thesis
      unfolding j split_sep_append norm_comps_append
      by (simp add: norm_comps_normal [OF nv])
  qed
qed

lemma join_isabs: "isabs r \<Longrightarrow> isabs (join r v)"
  by (cases r) (auto simp: join_def isabs_def)

lemma relpath_join:
  assumes "isabs r" and "normal_rel v"
  shows "relpath cwd (join r v) r = Inr v"
proof -
  let ?S = "norm_comps True [] (split_sep r)"
  have ja: "isabs (join r v)" by (rule join_isabs [OF assms(1)])
  then have jne: "join r v \<noteq> []" by (auto simp: isabs_def)
  have start: "filter (\<lambda>x. x \<noteq> []) (split_sep (abspath cwd r)) = ?S"
    by (rule abs_comps [OF assms(1)])
  have path: "filter (\<lambda>x. x \<noteq> []) (split_sep (abspath cwd (join r v))) = ?S @ split_sep v"
    using abs_comps [OF ja] join_comps [OF assms] by simp
  have comps: "\<forall>c \<in> set (split_sep v). c \<noteq> [] \<and> sep \<notin> set c"
    using assms(2) split_sep_no_sep [of _ v] by (auto simp: normal_rel_def list_all_iff)
  have "join_list (split_sep v) = v"
    using join_list_comps [OF split_sep_nonempty comps] by (simp add: sep_join_split)
  then show ?thesis
    using jne split_sep_nonempty [of v]
    by (simp add: relpath_def Let_def start path commonprefix_append)
qed

lemma resolve_root_given [simp]: "resolve_root ps d (PStr r) p = Inr (PStr r, p)"
  by (simp add: resolve_root_def)

lemma join_all_normal:
  assumes "isabs r"
    and "list_all (\<lambda>y. case y of PStr s \<Rightarrow> normal_rel s | _ \<Rightarrow> False) xs"
  shows "\<exists>ys. join_all (PStr r) xs = (ys, None) \<and> relpath_all cwd (PStr r) ys = (xs, None)
           \<and> (xs \<noteq> [] \<longrightarrow> (\<exists>s. isabs s \<and> hd ys = PStr s) \<and> ys \<noteq> [])"
  using assms(2)
proof (induction xs)
  case Nil
  show ?case by simp
next
  case (Cons x xs)
  then obtain s where x: "x = PStr s" and s: "normal_rel s" by (cases x) auto
  from Cons obtain ys where ys: "join_all (PStr r) xs = (ys, None)"
    "relpath_all cwd (PStr r) ys = (xs, None)" by auto
  show ?case
    using x ys relpath_join [OF assms(1) s, of cwd] join_isabs [OF assms(1), of s]
    by (simp add: osp_join_def osp_relpath_str)
qed

lemma value_roundtrip:
  assumes "isabs r" and "normal_value v" and "\<not> is_dict v"
  shows "\<exists>v'. fix_value (PStr r) v = (v', None) \<and> rel_value cwd (PStr r) v' = (v, None)
            \<and> \<not> is_dict v'"
proof (cases v)
  case (PStr s)
  with assms(2) have s: "normal_rel s" by simp
  have ja: "isabs (join r s)" by (rule join_isabs [OF assms(1)])
  show ?thesis
    using PStr normal_rel_props(2) [OF s] relpath_join [OF assms(1) s, of cwd] ja
    by (simp add: fix_value_def rel_value_def osp_join_def osp_relpath_str)
next
  case (PList xs)
  show ?thesis
  proof (cases xs)
    case Nil
    with PList assms(2) show ?thesis by simp
  next
    case (Cons x rest)
    show ?thesis
    proof (cases "is_string x")
      case False
      with PList Cons show ?thesis
        by (simp add: fix_value_def fix_seq_def rel_value_def rel_seq_def)
    next
      case True
      with PList Cons assms(2)
      have all: "list_all (\<lambda>y. case y of PStr s \<Rightarrow> normal_rel s | _ \<Rightarrow> False) xs" by simp
      then obtain s where x: "x = PStr s" and s: "normal_rel s"
        using Cons by (cases x) auto
      obtain ys where ys: "join_all (PStr r) xs = (ys, None)"
        "relpath_all cwd (PStr r) ys = (xs, None)" "ys \<noteq> []" "\<exists>s. isabs s \<and> hd ys = PStr s"
        using join_all_normal [OF assms(1) all, of cwd] Cons by auto
      then obtain y ys' s' where y: "ys = PStr s' # ys'" "isabs s'" by (cases ys) auto
      have f: "fix_value (PStr r) v = (PList ys, None)"
        using PList Cons x normal_rel_props(2) [OF s] ys(1)
        by (simp add: fix_value_def fix_seq_def join_each_def is_string_def)
      have g: "rel_value cwd (PStr r) (PList ys) = (v, None)"
        using PList y ys(2)
        by (simp add: rel_value_def rel_seq_def relpath_each_def is_string_def)
      from f g show ?thesis by simp
    qed
  qed
qed (use assms in \<open>simp_all add: fix_value_def fix_seq_def rel_value_def rel_seq_def is_string_def\<close>)

lemma items_roundtrip:
  assumes "isabs r"
  shows "normal_doc d \<Longrightarrow>
         \<exists>d'. fix_items ps (PStr r) p d = (d', None) \<and> rel_items cwd ps (PStr r) p d' = (d, None)"
proof (induction d rule: odict_induct)
  case Nil
  show ?case by simp
next
  case (Cons k v rest)
  from Cons.prems have nrest: "normal_doc rest" by simp
  from Cons.IH(2) [OF nrest] obtain rest' where
    rest: "fix_items ps (PStr r) p rest = (rest', None)"
          "rel_items cwd ps (PStr r) p rest' = (rest, None)" by blast
  show ?case
  proof (cases "is_dict v")
    case True
    then obtain sub where v: "v = PDict sub" by (cases v) simp_all
    with Cons.prems have "normal_doc sub" by simp
    from Cons.IH(1) [OF v this] obtain sub' where
      "fix_items ps (PStr r) p sub = (sub', None)"
      "rel_items cwd ps (PStr r) p sub' = (sub, None)" by blast
    with v rest show ?thesis by simp
  next
    case nd: False
    show ?thesis
    proof (cases "k \<in> set paths")
      case False
      with nd rest show ?thesis
        by (simp add: fix_items_nondict rel_items_nondict
                 del: fix_items.simps(2) rel_items.simps(2))
    next
      case True
      with nd Cons.prems have "normal_value v" by (cases v) simp_all
      from value_roundtrip [OF assms this nd, of cwd] obtain v' where
        "fix_value (PStr r) v = (v', None)" "rel_value cwd (PStr r) v' = (v, None)" "\<not> is_dict v'"
        by blast
      with nd True rest show ?thesis
        by (simp add: fix_items_nondict rel_items_nondict
                 del: fix_items.simps(2) rel_items.simps(2))
    qed
  qed
qed

lemma join_all_abs:
  assumes "isabs r"
  shows "join_all (PStr r) xs = (ys, None) \<Longrightarrow>
         length ys = length xs \<and> (\<forall>y \<in> set ys. \<exists>s. y = PStr s \<and> isabs s)"
proof (induction xs arbitrary: ys)
  case Nil
  then show ?case by simp
next
  case (Cons x xs)
  then show ?case
    using join_isabs [OF assms]
    by (auto simp: osp_join_def split: option.splits prod.splits)
qed

lemma value_idem:
  assumes "isabs r" and "fix_value (PStr r) v = (v', None)" and "\<not> is_dict v"
  shows "fix_value (PStr r) v' = (v', None) \<and> \<not> is_dict v'"
proof (cases v)
  case (PStr s)
  show ?thesis
  proof (cases "isabs s")
    case True
    with PStr assms(2) show ?thesis
      by (cases s) (auto simp: fix_value_def fix_seq_def is_string_def isabs_def)
  next
    case False
    with PStr assms(2) have v': "v' = PStr (join r s)"
      by (simp add: fix_value_def osp_join_def)
    from join_isabs [OF assms(1), of s] show ?thesis unfolding v'
      by (cases "join r s") (auto simp: fix_value_def fix_seq_def is_string_def isabs_def)
  qed
next
  case (PArchive s a b)
  show ?thesis
  proof (cases "isabs s")
    case True
    with PArchive assms(2) show ?thesis
      by (cases s) (auto simp: fix_value_def fix_seq_def is_string_def isabs_def)
  next
    case False
    with PArchive assms(2) have v': "v' = PStr (join r s)"
      by (simp add: fix_value_def osp_join_def)
    from join_isabs [OF assms(1), of s] show ?thesis unfolding v'
      by (cases "join r s") (auto simp: fix_value_def fix_seq_def is_string_def isabs_def)
  qed
next
  case (PList xs)
  show ?thesis
  proof (cases xs)
    case Nil
    with PList assms(2) show ?thesis by (simp add: fix_value_def fix_seq_def)
  next
    case (Cons x rest)
    show ?thesis
    proof (cases "str_of x")
      case None
      with PList Cons assms(2) show ?thesis
        by (auto simp: fix_value_def fix_seq_def is_string_def)
    next
      case (Some s0)
      show ?thesis
      proof (cases "isabs s0")
        case True
        with Some PList Cons assms(2) show ?thesis
          by (auto simp: fix_value_def fix_seq_def is_string_def)
      next
        case False
        with Some PList Cons assms(2) obtain ys where
          ys: "join_all (PStr r) xs = (ys, None)" "v' = PList ys"
          by (auto simp: fix_value_def fix_seq_def is_string_def join_each_def split: prod.splits)
        from join_all_abs [OF assms(1) ys(1)] Cons obtain s ys' where
          "ys = PStr s # ys'" "isabs s" by (cases ys) auto
        with ys(2) show ?thesis
          by (simp add: fix_value_def fix_seq_def is_string_def)
      qed
    qed
  qed
qed (use assms in \<open>auto simp: fix_value_def fix_seq_def is_string_def\<close>)

lemma items_idem:
  assumes "isabs r"
  shows "fix_items ps (PStr r) p d = (d', None) \<Longrightarrow> fix_items ps (PStr r) p d' = (d', None)"
proof (induction d arbitrary: d' rule: odict_induct)
  case Nil
  then show ?case by simp
next
  case (Cons k v rest)
  show ?case
  proof (cases "is_dict v")
    case True
    then obtain sub where v: "v = PDict sub" by (cases v) simp_all
    from Cons.prems v obtain sub' rest' where
      s: "fix_items ps (PStr r) p sub = (sub', None)"
         "fix_items ps (PStr r) p rest = (rest', None)" "d' = (k, PDict sub') # rest'"
      by (auto split: prod.splits option.splits)
    from Cons.IH(1) [OF v s(1)] Cons.IH(2) [OF s(2)] s(3) show ?thesis by simp
  next
    case nd: False
    show ?thesis
    proof (cases "k \<in> set paths")
      case False
      with nd Cons.prems obtain rest' where
        s: "fix_items ps (PStr r) p rest = (rest', None)" "d' = (k, v) # rest'"
        by (auto simp: fix_items_nondict simp del: fix_items.simps(2) split: prod.splits)
      from Cons.IH(2) [OF s(1)] s(2) nd False show ?thesis
        by (simp add: fix_items_nondict del: fix_items.simps(2))
    next
      case True
      with nd Cons.prems obtain v' rest' where
        s: "fix_value (PStr r) v = (v', None)"
           "fix_items ps (PStr r) p rest = (rest', None)" "d' = (k, v') # rest'"
        by (auto simp: fix_items_nondict simp del: fix_items.simps(2)
                 split: prod.splits option.splits)
      from value_idem [OF assms s(1) nd] Cons.IH(2) [OF s(2)] s(3) True show ?thesis
        by (simp add: fix_items_nondict del: fix_items.simps(2))
    qed
  qed
qed


text \<open>
  Claim C6, as the code has it. For an absolute root, normalising and then
  denormalising gives the document back when the document is in normal form
  (every path-like value is a relative path in normal form, a sequence of such
  paths, or a value neither function rewrites); and whenever normalising with
  an absolute root completes, normalising the result again changes nothing.
\<close>

theorem roundtrip_and_idempotence:
  assumes "isabs r"
  shows "(normal_doc d \<longrightarrow>
            (\<exists>d'. fix_paths ps d (PStr r) PNone = (d', None) \<and>
                  rel_paths cwd ps d' (PStr r) PNone = (d, None)))
       \<and> (\<forall>d'. fix_paths ps d (PStr r) PNone = (d', None) \<longrightarrow>
                 fix_paths ps d' (PStr r) PNone = (d', None))"
proof (intro conjI impI allI)
  assume "normal_doc d"
  from items_roundtrip [OF assms this, of ps PNone cwd]
  show "\<exists>d'. fix_paths ps d (PStr r) PNone = (d', None) \<and>
              rel_paths cwd ps d' (PStr r) PNone = (d, None)"
    by simp
next
  fix d'
  assume "fix_paths ps d (PStr r) PNone = (d', None)"
  then have "fix_items ps (PStr r) PNone d = (d', None)" by simp
  from items_idem [OF assms this] show "fix_paths ps d' (PStr r) PNone = (d', None)"
    by simp
qed

theorem roundtrip_and_idempotence_witness:
  "isabs ''/proj'' \<and> normal_doc example_doc
   \<and> fix_paths [] example_doc (PStr ''/proj'') PNone
       = ([(''project'', PStr ''P''), (''outdir'', PStr ''/proj/out''),
           (''sub'', PDict [(''data'', PList [PStr ''/proj/a/b'', PStr ''/proj/c''])])], None)
   \<and> (\<exists>d'. fix_paths [] example_doc (PStr ''/proj'') PNone = (d', None) \<and>
             rel_paths ''/home'' [] d' (PStr ''/proj'') PNone = (example_doc, None))
   \<and> fix_paths [] [(''project'', PStr ''P''), (''outdir'', PStr ''/proj/out''),
           (''sub'', PDict [(''data'', PList [PStr ''/proj/a/b'', PStr ''/proj/c''])])]
         (PStr ''/proj'') PNone
       = ([(''project'', PStr ''P''), (''outdir'', PStr ''/proj/out''),
           (''sub'', PDict [(''data'', PList [PStr ''/proj/a/b'', PStr ''/proj/c''])])], None)"
proof -
  have a: "isabs ''/proj''" by (simp add: path_defs)
  have n: "normal_doc example_doc"
    by (simp add: example_doc_def paths_def normal_rel_def is_string_def sep_def)
  have f: "fix_paths [] example_doc (PStr ''/proj'') PNone
       = ([(''project'', PStr ''P''), (''outdir'', PStr ''/proj/out''),
           (''sub'', PDict [(''data'', PList [PStr ''/proj/a/b'', PStr ''/proj/c''])])], None)"
    by (simp add: example_doc_def paths_def fix_value_def fix_seq_def join_each_def
        osp_join_def is_string_def path_defs)
  note t = roundtrip_and_idempotence [OF a, of example_doc "[]" "''/home''"]
  from t n have r: "\<exists>d'. fix_paths [] example_doc (PStr ''/proj'') PNone = (d', None) \<and>
             rel_paths ''/home'' [] d' (PStr ''/proj'') PNone = (example_doc, None)"
    by blast
  from t f have i: "fix_paths [] [(''project'', PStr ''P''), (''outdir'', PStr ''/proj/out''),
           (''sub'', PDict [(''data'', PList [PStr ''/proj/a/b'', PStr ''/proj/c''])])]
         (PStr ''/proj'') PNone
       = ([(''project'', PStr ''P''), (''outdir'', PStr ''/proj/out''),
           (''sub'', PDict [(''data'', PList [PStr ''/proj/a/b'', PStr ''/proj/c''])])], None)"
    by blast
  from a n f r i show ?thesis by blast
qed

text \<open>
  Claim C6, as the spec states it, fails. A value that is already absolute is
  left alone by \<^verbatim>\<open>fix_paths\<close> and made relative by \<^verbatim>\<open>rel_paths\<close>, so the round
  trip changes the document; and with a relative root a second normalising pass
  joins the root once more.
\<close>

theorem roundtrip_counterexample:
  "fst (rel_paths ''/home'' []
          (fst (fix_paths [] [(''src'', PStr ''/data'')] (PStr ''/proj'') PNone))
          (PStr ''/proj'') PNone)
     = [(''src'', PStr ''../data'')]
   \<and> fst (rel_paths ''/home'' []
          (fst (fix_paths [] [(''src'', PStr ''/data'')] (PStr ''/proj'') PNone))
          (PStr ''/proj'') PNone)
     \<noteq> [(''src'', PStr ''/data'')]
   \<and> fix_paths [] [(''src'', PStr ''a'')] (PStr ''proj'') PNone
     = ([(''src'', PStr ''proj/a'')], None)
   \<and> fix_paths [] [(''src'', PStr ''proj/a'')] (PStr ''proj'') PNone
     = ([(''src'', PStr ''proj/proj/a'')], None)"
  by (simp add: paths_def fix_value_def fix_seq_def rel_value_def rel_seq_def is_string_def
      osp_join_def osp_relpath_def relpath_def abspath_def normpath_def path_defs)

section \<open>Properties of the path normaliser in place\<close>

























section \<open>Properties of the locked file I/O\<close>

text \<open>
  Claim C2. \<^verbatim>\<open>safe_dump\<close> on a path where a file exists: the calls are, in
  order, the test for the old file, its renaming to the backup name, the
  acquisition of the lock, the writing and the release. The renaming touches the
  path before the lock is acquired, so the calls on the path are not all made
  under the lock.
\<close>

theorem safe_dump_renames_before_lock:
  "trace (snd (safe_dump d ''/c/x.yml'' old_file))
     = [Exists ''/c/x.yml'', Rename ''/c/x.yml'' ''/c/x.yml~'',
        Acquire ''/c/x.yml.lck'', OpenWrite ''/c/x.yml'', Release ''/c/x.yml.lck'']
   \<and> \<not> guarded ''/c/x.yml.lck'' ''/c/x.yml'' 0 (trace (snd (safe_dump d ''/c/x.yml'' old_file)))"
  by (simp add: old_file_def io_defs)

text \<open>
  Claim C3. \<^verbatim>\<open>ExperimentsConfig.save\<close> when the master index cannot be
  written: \<^verbatim>\<open>safe_dump\<close> releases its own lock and raises, and the lock that
  \<^verbatim>\<open>save\<close> itself acquired on \<^verbatim>\<open>experiments.yml.lck\<close> is still held when the
  error reaches the caller.
\<close>

theorem save_keeps_index_lock_on_error:
  "(case ExperimentsConfig_save cwd no_experiments index_unwritable of
      (e, E, w) \<Rightarrow> (e, trace w, held ''/c/experiments.yml.lck'' 0 (trace w)))
   = (Some IOError,
      [Acquire ''/c/experiments.yml.lck'', Exists ''/c/experiments.yml'',
       Acquire ''/c/experiments.yml.lck'', OpenWrite ''/c/experiments.yml'',
       Release ''/c/experiments.yml.lck''],
      1)"
  by (simp add: ExperimentsConfig_save_def no_experiments_def one_project_def
      index_unwritable_def exp_file_def path_defs io_defs master_index_def)

section \<open>Properties of the projects registry\<close>

text \<open>
  Claim C1. \<^verbatim>\<open>ProjectsConfig.save\<close> on a registry whose only value is a
  reference that was never loaded: the call returns, the local variable
  \<^verbatim>\<open>project_paths\<close> has become the root path itself, and \<^verbatim>\<open>projects.yml\<close>
  holds that string, not a mapping with an entry for the name.
\<close>

theorem save_drops_pending_project:
  "(case ProjectsConfig_save pending_project empty_world of
      (e, P, w) \<Rightarrow> (e, pitems P, project_paths P, files w ''/c/projects.yml'', index_covers w P))
   = (None, [(''b'', PStr ''/b/.project/.project.yml'')], PStr ''/b'',
      Some (Yaml (PStr ''/b'')), False)"
  by (simp add: ProjectsConfig_save_def pending_project_def empty_world_def all_projects_def
      index_covers_def path_defs io_defs)

section \<open>Properties of the experiments registry\<close>

text \<open>
  Claim C9. When \<^verbatim>\<open>projects.yml\<close> does not exist, \<^verbatim>\<open>ProjectsConfig(conf_dir)\<close>
  returns an empty registry; every \<^verbatim>\<open>ExperimentsConfig\<close> made over that registry
  is empty as well and is made without touching the file system; and where
  \<^verbatim>\<open>experiments.yml\<close> does not exist, the property \<^verbatim>\<open>exp_files\<close> over that
  registry gives the empty dictionary. None of the three raises.
\<close>

theorem bootstrap_empty:
  assumes "\<not> is_path w (all_projects cdir)"
  shows "\<exists>P w1. ProjectsConfig_init cdir None w = (Inr P, w1) \<and> pitems P = [] \<and>
           (\<forall>d pm w2. \<exists>E. ExperimentsConfig_init P d pm w2 = (Inr E, w2) \<and> eitems E = []) \<and>
           (\<forall>E w2. projects E = P \<and> \<not> is_path w2 (exp_file E)
               \<longrightarrow> fst (exp_files E w2) = Inr ([], project_map' E))"
  using assms
  by (simp add: ProjectsConfig_init_def ExperimentsConfig_init_def osp_exists_def
      exp_files_def load_index_def)

theorem bootstrap_empty_witness:
  "\<not> is_path empty_world (all_projects ''/c'') \<and>
   (\<exists>P w1. ProjectsConfig_init ''/c'' None empty_world = (Inr P, w1) \<and> pitems P = [] \<and>
           (\<forall>d pm w2. \<exists>E. ExperimentsConfig_init P d pm w2 = (Inr E, w2) \<and> eitems E = []) \<and>
           (\<forall>E w2. projects E = P \<and> \<not> is_path w2 (exp_file E)
               \<longrightarrow> fst (exp_files E w2) = Inr ([], project_map' E)))"
proof -
  have h: "\<not> is_path empty_world (all_projects ''/c'')"
    by (simp add: is_path_def empty_world_def)
  from h bootstrap_empty [OF h] show ?thesis by (rule conjI)
qed

lemma safe_load_trace:
  "trace (snd (safe_load (PStr p) w))
     = trace w @ [Acquire (p @ ''.lck''), OpenRead p, Release (p @ ''.lck'')]"
  by (simp add: io_defs Let_def split: option.splits content.splits)

lemma getitem_world:
  "map_of (eitems E) attr = Some ref \<Longrightarrow> \<not> is_dict ref \<Longrightarrow> \<not> is_archive ref \<Longrightarrow>
   snd (snd (getitem E attr w)) = snd (safe_load ref w)"
  by (simp add: getitem_def Let_def split: prod.splits sum.splits option.splits pyval.splits)

text \<open>
  Claim C4, as the code has it. When the stored value of a name is a
  reference string and loading the file it names raises, reading the name
  raises that error and leaves the registry as it was, so the stored value is
  still the same reference; and reading the name again loads the file again.
  (Nothing is said here of an error raised after the file was loaded.)
\<close>

theorem failed_load_keeps_reference:
  assumes "map_of (eitems E) attr = Some (PStr p)"
    and "safe_load (PStr p) w = (Inl e, w1)"
  shows "getitem E attr w = (Inl e, E, w1) \<and>
         trace (snd (snd (getitem E attr w1)))
           = trace w1 @ [Acquire (p @ ''.lck''), OpenRead p, Release (p @ ''.lck'')]"
proof
  show "getitem E attr w = (Inl e, E, w1)"
    using assms by (simp add: getitem_def)
  show "trace (snd (snd (getitem E attr w1)))
           = trace w1 @ [Acquire (p @ ''.lck''), OpenRead p, Release (p @ ''.lck'')]"
    using getitem_world [OF assms(1), of w1] by (simp add: safe_load_trace)
qed

theorem failed_load_keeps_reference_witness:
  "map_of (eitems pending_exp) ''exp'' = Some (PStr ''/proj/.project/exp.yml'') \<and>
   safe_load (PStr ''/proj/.project/exp.yml'') empty_world
     = (Inl IOError, empty_world\<lparr>trace := [Acquire ''/proj/.project/exp.yml.lck'',
          OpenRead ''/proj/.project/exp.yml'', Release ''/proj/.project/exp.yml.lck'']\<rparr>) \<and>
   getitem pending_exp ''exp'' empty_world
     = (Inl IOError, pending_exp, empty_world\<lparr>trace := [Acquire ''/proj/.project/exp.yml.lck'',
          OpenRead ''/proj/.project/exp.yml'', Release ''/proj/.project/exp.yml.lck'']\<rparr>)"
proof -
  have a: "map_of (eitems pending_exp) ''exp'' = Some (PStr ''/proj/.project/exp.yml'')"
    by (simp add: pending_exp_def)
  have b: "safe_load (PStr ''/proj/.project/exp.yml'') empty_world
     = (Inl IOError, empty_world\<lparr>trace := [Acquire ''/proj/.project/exp.yml.lck'',
          OpenRead ''/proj/.project/exp.yml'', Release ''/proj/.project/exp.yml.lck'']\<rparr>)"
    by (simp add: io_defs empty_world_def)
  from failed_load_keeps_reference [OF a b] a b show ?thesis by simp
qed

text \<open>
  Claim C4, as the spec states it, fails. The file loads, the loaded document
  is stored under the name, and then \<^verbatim>\<open>fix_paths\<close> raises KeyError because the
  document has neither \<^verbatim>\<open>project\<close> nor \<^verbatim>\<open>root\<close>: the read raises, and the stored
  value is the document, no longer the reference.
\<close>

theorem getitem_stores_before_fix_paths:
  "(case getitem pending_exp ''exp'' rootless_file of
      (r, E, w) \<Rightarrow> (r, map_of (eitems E) ''exp''))
   = (Inl KeyError, Some (PDict [(''outdir'', PStr ''out'')]))"
  by (simp add: getitem_def pending_exp_def rootless_file_def one_project_def setitem_def
      resolve_root_def io_defs)

section \<open>The scan of the project directories\<close>

lemma map_of_odict_set:
  "map_of (odict_set k v d) k' = (if k' = k then Some v else map_of d k')"
  by (induction d) auto



lemma add_exp_mono: "x \<in> set (m k') \<Longrightarrow> x \<in> set (add_exp k e m k')"
  by (auto simp: add_exp_def)

lemma add_exp_in: "e \<in> set (add_exp k e m k)"
  by (simp add: add_exp_def)









lemma glob_yml_log [simp]: "glob_yml (log e w) cp = glob_yml w cp"
  by (simp add: glob_yml_def log_def)

lemma scanned_log [simp]: "scanned (log e w) pd = scanned w pd"
  by (simp add: scanned_def split: sum.splits)






lemma fold_project_map_mono:
  "fold_project_map m items = (m', e) \<Longrightarrow> x \<in> set (m k) \<Longrightarrow> x \<in> set (m' k)"
proof (induction items arbitrary: m)
  case Nil
  then show ?case by simp
next
  case (Cons kv items)
  obtain key val where kv: "kv = (key, val)" by (cases kv)
  show ?case
  proof (cases val)
    case (PDict dd)
    show ?thesis
    proof (cases "map_of dd ''project''")
      case None
      with Cons.prems kv PDict show ?thesis by simp
    next
      case (Some p)
      show ?thesis
      proof (cases "hashkey p")
        case (Inl err)
        with Cons.prems kv PDict Some show ?thesis by simp
      next
        case (Inr h)
        with Cons.prems(1) kv PDict Some
        have "fold_project_map (add_exp h key m) items = (m', e)" by simp
        from Cons.IH [OF this add_exp_mono [where m = m and k' = k, OF Cons.prems(2)]]
        show ?thesis .
      qed
    qed
  next
    case (PArchive t p tm)
    with Cons.prems(1) kv
    have "fold_project_map (add_exp (project_key p) key m) items = (m', e)" by simp
    from Cons.IH [OF this add_exp_mono [where m = m and k' = k, OF Cons.prems(2)]]
    show ?thesis .
  qed (use Cons kv in \<open>simp_all\<close>)
qed















section \<open>Archiving an experiment\<close>

lemma odict_set_keys_present:
  "map_of d k = Some v \<Longrightarrow> map fst (odict_set k v' d) = map fst d"
  by (induction d) (auto split: if_splits)

lemma odict_set_member: "(k, v) \<in> set (odict_set k v d)"
  by (induction d) auto

lemma fold_project_map_err:
  "snd (fold_project_map m items) = snd (fold_project_map n items)"
proof (induction items arbitrary: m n)
  case Nil
  show ?case by simp
next
  case (Cons kv items)
  obtain k val where kv: "kv = (k, val)" by (cases kv)
  show ?case
  proof (cases val)
    case (PDict dd)
    show ?thesis
    proof (cases "map_of dd ''project''")
      case None
      then show ?thesis using kv PDict by simp
    next
      case (Some p)
      show ?thesis
      proof (cases "hashkey p")
        case (Inl e)
        then show ?thesis using kv PDict Some by simp
      next
        case (Inr h)
        then show ?thesis
          using kv PDict Some Cons.IH [of "add_exp h k m" "add_exp h k n"] by simp
      qed
    qed
  next
    case (PArchive t p tm)
    then show ?thesis
      using kv Cons.IH [of "add_exp (project_key p) k m" "add_exp (project_key p) k n"]
      by simp
  qed (use kv Cons.IH [of m n] in simp_all)
qed

lemma fold_project_map_tail:
  assumes "fold_project_map m ((k, val) # items) = (m', None)"
  shows "\<exists>m0. fold_project_map m0 items = (m', None)"
  using assms by (cases val) (auto split: option.splits sum.splits)

lemma fold_project_map_archive_ok:
  "snd (fold_project_map m items) = None \<Longrightarrow>
   snd (fold_project_map n (odict_set key (PArchive t p tm) items)) = None"
proof (induction items arbitrary: m n)
  case Nil
  then show ?case by simp
next
  case (Cons kv items)
  obtain k val where kv: "kv = (k, val)" by (cases kv)
  obtain m' where "fold_project_map m ((k, val) # items) = (m', None)"
    using Cons.prems kv by (cases "fold_project_map m ((k, val) # items)") auto
  from fold_project_map_tail [OF this]
  obtain m0 where "fold_project_map m0 items = (m', None)" by blast
  then have m0: "snd (fold_project_map m0 items) = None" by simp
  show ?case
  proof (cases "k = key")
    case True
    from m0 fold_project_map_err [of m0 items "add_exp (project_key p) key n"]
    have "snd (fold_project_map (add_exp (project_key p) key n) items) = None" by simp
    then show ?thesis using kv True by simp
  next
    case False
    note IH = Cons.IH [OF m0]
    show ?thesis
    proof (cases val)
      case (PDict dd)
      with Cons.prems kv obtain pv h where "map_of dd ''project'' = Some pv" "hashkey pv = Inr h"
        by (auto split: option.splits sum.splits)
      then show ?thesis using kv False PDict IH [of "add_exp h k n"] by simp
    next
      case (PArchive t' p' tm')
      then show ?thesis using kv False IH [of "add_exp (project_key p') k n"] by simp
    qed (use kv False IH [of n] in simp_all)
  qed
qed

lemma fold_project_map_in:
  "fold_project_map m items = (m', None) \<Longrightarrow> (key, PArchive t p tm) \<in> set items \<Longrightarrow>
   key \<in> set (m' (project_key p))"
proof (induction items arbitrary: m)
  case Nil
  then show ?case by simp
next
  case (Cons kv items)
  obtain k val where kv: "kv = (k, val)" by (cases kv)
  show ?case
  proof (cases "kv = (key, PArchive t p tm)")
    case True
    with Cons.prems(1)
    have f: "fold_project_map (add_exp (project_key p) key m) items = (m', None)" by simp
    show ?thesis by (rule fold_project_map_mono [OF f add_exp_in])
  next
    case False
    with Cons.prems(2) have mem: "(key, PArchive t p tm) \<in> set items" by simp
    from Cons.prems(1) kv fold_project_map_tail [of m k val items m']
    obtain m0 where "fold_project_map m0 items = (m', None)" by blast
    from Cons.IH [OF this mem] show ?thesis .
  qed
qed

lemma map_of_master_index:
  "map_of (master_index items) k
     = map_option (\<lambda>v. if is_archive v then v else PNone) (map_of items k)"
  by (induction items) (auto simp: master_index_def)

lemma keys_master_index: "map fst (master_index items) = map fst items"
  by (simp add: master_index_def)

lemma safe_dump_writes:
  "safe_dump d f w = (Inr u, w') \<Longrightarrow> files w' f = Some (Yaml d)"
  by (auto simp: safe_dump_def osp_exists_def os_rename_def open_write_def lock_acquire_def
        lock_release_def log_def Let_def
      split: prod.splits sum.splits if_splits option.splits)

lemma setitem_shape:
  "setitem E key val = (e, E1) \<Longrightarrow>
   projects E1 = projects E \<and>
   (eitems E1 = eitems E \<and> e \<noteq> None \<or> eitems E1 = odict_set key val (eitems E) \<and> e = None)"
  by (auto simp: setitem_def project_map_def split: if_splits prod.splits option.splits sum.splits)

lemma getitem_keeps:
  assumes g: "getitem E attr w = (r, E', w')"
  shows "projects E' = projects E
       \<and> map fst (eitems E') = map fst (eitems E)
       \<and> (\<forall>k v. map_of (eitems E) k = Some v \<longrightarrow> is_dict v \<or> is_archive v \<longrightarrow>
                 map_of (eitems E') k = Some v)
       \<and> (\<forall>v. r = Inr v \<longrightarrow> is_dict v \<longrightarrow> map_of (eitems E') attr = Some v)"
proof (cases "map_of (eitems E) attr")
  case None
  with g show ?thesis by (auto simp: getitem_def)
next
  case (Some ret)
  show ?thesis
  proof (cases "is_dict ret \<or> is_archive ret")
    case True
    with g Some show ?thesis by (auto simp: getitem_def)
  next
    case False
    obtain lr w1 where sl: "safe_load ret w = (lr, w1)" by (metis prod.exhaust)
    show ?thesis
    proof (cases lr)
      case (Inl e)
      with g Some False sl show ?thesis by (auto simp: getitem_def)
    next
      case (Inr d)
      obtain se Ea where si: "setitem E attr d = (se, Ea)" by (metis prod.exhaust)
      note sh = setitem_shape [OF si]
      have k1: "map fst (odict_set attr x (eitems E)) = map fst (eitems E)" for x
        by (rule odict_set_keys_present [OF Some])
      have k2: "map fst (odict_set attr y (odict_set attr x (eitems E))) = map fst (eitems E)"
        for x y
        using odict_set_keys_present [of "odict_set attr x (eitems E)" attr x y] k1 [of x]
        by (simp add: map_of_odict_set)
      have o: "\<And>k v. map_of (eitems E) k = Some v \<Longrightarrow> is_dict v \<or> is_archive v \<Longrightarrow> k \<noteq> attr"
        using Some False by auto
      show ?thesis
      proof (cases se)
        case (Some e)
        with g \<open>map_of (eitems E) attr = Some ret\<close> False sl Inr si
        have "E' = Ea" "r = Inl e" by (simp_all add: getitem_def)
        with sh Some show ?thesis by auto
      next
        case None
        with sh have ea: "eitems Ea = odict_set attr d (eitems E)" "projects Ea = projects E"
          by auto
        show ?thesis
        proof (cases "is_dict d")
          case nd: False
          with g \<open>map_of (eitems E) attr = Some ret\<close> False sl Inr si None
          have "E' = Ea" "r = Inr d" by (cases d; simp add: getitem_def)+
          with ea k1 o nd show ?thesis by (auto simp: map_of_odict_set)
        next
          case True
          then obtain items where d: "d = PDict items" by (cases d) auto
          obtain items' err where fp:
            "fix_paths (pitems (projects Ea)) items PNone PNone = (items', err)"
            by (metis prod.exhaust)
          from g \<open>map_of (eitems E) attr = Some ret\<close> False sl Inr si None d fp
          have E': "E' = Ea\<lparr>eitems := odict_set attr (PDict items') (eitems Ea)\<rparr>"
            and r: "r = (case err of Some e \<Rightarrow> Inl e | None \<Rightarrow> Inr (PDict items'))"
            by (auto simp: getitem_def Let_def split: option.splits)
          from E' ea k2 o r show ?thesis
            by (auto simp: map_of_odict_set split: option.splits)
        qed
      qed
    qed
  qed
qed

lemma realize_keeps:
  "realize keys E w = (r, E', w') \<Longrightarrow>
     projects E' = projects E
   \<and> map fst (eitems E') = map fst (eitems E)
   \<and> (\<forall>k v. map_of (eitems E) k = Some v \<longrightarrow> is_dict v \<or> is_archive v \<longrightarrow>
             map_of (eitems E') k = Some v)
   \<and> (\<forall>snap. r = Inr snap \<longrightarrow>
        (\<forall>kv \<in> set snap. is_dict (snd kv) \<longrightarrow> map_of (eitems E') (fst kv) = Some (snd kv)))"
proof (induction keys arbitrary: E w r E' w')
  case Nil
  then show ?case by auto
next
  case (Cons key keys)
  obtain gr Ea wa where g: "getitem E key w = (gr, Ea, wa)" by (metis prod.exhaust)
  note G = getitem_keeps [OF g]
  show ?case
  proof (cases gr)
    case (Inl e)
    with Cons.prems g have "E' = Ea" "r = Inl e" by simp_all
    with G show ?thesis by simp
  next
    case (Inr v)
    obtain r2 Eb wb where rr: "realize keys Ea wa = (r2, Eb, wb)" by (metis prod.exhaust)
    note R = Cons.IH [OF rr]
    from Cons.prems g Inr rr
    have E': "E' = Eb"
      and r: "r = (case r2 of Inl e \<Rightarrow> Inl e | Inr snap \<Rightarrow> Inr ((key, v) # snap))"
      by (auto split: sum.splits)
    have a: "projects E' = projects E" using G R E' by simp
    have b: "map fst (eitems E') = map fst (eitems E)" using G R E' by simp
    have c: "\<forall>k x. map_of (eitems E) k = Some x \<longrightarrow> is_dict x \<or> is_archive x \<longrightarrow>
             map_of (eitems E') k = Some x"
      using G R E' by blast
    have d: "\<forall>snap. r = Inr snap \<longrightarrow>
        (\<forall>kv \<in> set snap. is_dict (snd kv) \<longrightarrow> map_of (eitems E') (fst kv) = Some (snd kv))"
    proof (intro allI impI ballI)
      fix snap kv
      assume s: "r = Inr snap" and kv: "kv \<in> set snap" and dk: "is_dict (snd kv)"
      from s r obtain snap2 where r2: "r2 = Inr snap2" and sn: "snap = (key, v) # snap2"
        by (cases r2) auto
      show "map_of (eitems E') (fst kv) = Some (snd kv)"
      proof (cases "kv = (key, v)")
        case True
        with dk Inr G have "map_of (eitems Ea) key = Some v" by simp
        with R dk True E' show ?thesis by auto
      next
        case False
        with kv sn have "kv \<in> set snap2" by simp
        with R r2 dk E' show ?thesis by blast
      qed
    qed
    from a b c d show ?thesis by blast
  qed
qed

lemma save_experiments_keeps:
  "save_experiments cwd snap E w = (e, E', w') \<Longrightarrow>
   (\<forall>kv \<in> set snap. is_dict (snd kv) \<longrightarrow>
      (\<exists>v'. map_of (eitems E) (fst kv) = Some v' \<and> is_dict v')) \<Longrightarrow>
     projects E' = projects E
   \<and> map fst (eitems E') = map fst (eitems E)
   \<and> (\<forall>k v. map_of (eitems E) k = Some v \<longrightarrow> is_archive v \<longrightarrow>
             map_of (eitems E') k = Some v)"
proof (induction snap arbitrary: E w)
  case Nil
  then show ?case by simp
next
  case (Cons kv snap)
  obtain exp d where kv: "kv = (exp, d)" by (cases kv)
  show ?case
  proof (cases "is_dict d")
    case False
    with Cons.prems(1) kv have s: "save_experiments cwd snap E w = (e, E', w')"
      by (cases d) simp_all
    from Cons.prems(2) have "\<forall>kv \<in> set snap. is_dict (snd kv) \<longrightarrow>
      (\<exists>v'. map_of (eitems E) (fst kv) = Some v' \<and> is_dict v')" by simp
    from Cons.IH [OF s this] show ?thesis .
  next
    case True
    then obtain items where d: "d = PDict items" by (cases d) auto
    from Cons.prems(2) kv True obtain v0 where v0: "map_of (eitems E) exp = Some v0" "is_dict v0"
      by auto
    obtain items' err where rp:
      "rel_paths cwd (pitems (projects E)) items PNone PNone = (items', err)"
      by (metis prod.exhaust)
    define E1 where "E1 = E\<lparr>eitems := odict_set exp (PDict items') (eitems E)\<rparr>"
    have p1: "projects E1 = projects E" by (simp add: E1_def)
    have k1: "map fst (eitems E1) = map fst (eitems E)"
      using odict_set_keys_present [OF v0(1)] by (simp add: E1_def)
    have a1: "\<And>k v. map_of (eitems E) k = Some v \<Longrightarrow> is_archive v \<Longrightarrow>
                map_of (eitems E1) k = Some v"
    proof -
      fix k v assume "map_of (eitems E) k = Some v" "is_archive v"
      with v0 have "k \<noteq> exp" by (cases v; cases v0) auto
      with \<open>map_of (eitems E) k = Some v\<close> show "map_of (eitems E1) k = Some v"
        by (simp add: E1_def map_of_odict_set)
    qed
    have d1: "\<forall>kv \<in> set snap. is_dict (snd kv) \<longrightarrow>
      (\<exists>v'. map_of (eitems E1) (fst kv) = Some v' \<and> is_dict v')"
    proof (intro ballI impI)
      fix x assume "x \<in> set snap" "is_dict (snd x)"
      with Cons.prems(2) obtain v' where "map_of (eitems E) (fst x) = Some v'" "is_dict v'"
        by auto
      then show "\<exists>v'. map_of (eitems E1) (fst x) = Some v' \<and> is_dict v'"
        by (cases "fst x = exp") (auto simp: E1_def map_of_odict_set)
    qed
    from Cons.prems(1) kv d rp
    have "E' = E \<or> E' = E1 \<or> (\<exists>w2. save_experiments cwd snap E1 w2 = (e, E', w'))"
      by (auto simp: Let_def E1_def split: option.splits sum.splits prod.splits)
    then show ?thesis
    proof (elim disjE exE)
      assume "E' = E"
      then show ?thesis by simp
    next
      assume "E' = E1"
      with p1 k1 a1 show ?thesis by simp
    next
      fix w2 assume "save_experiments cwd snap E1 w2 = (e, E', w')"
      from Cons.IH [OF this d1] p1 k1 a1 show ?thesis by simp
    qed
  qed
qed

lemma save_writes_index:
  assumes "ExperimentsConfig_save cwd E1 w = (None, E2, w2)"
  shows "files w2 (exp_file E1) = Some (Yaml (PDict (master_index (eitems E2))))
       \<and> map fst (eitems E2) = map fst (eitems E1)
       \<and> (\<forall>k v. map_of (eitems E1) k = Some v \<longrightarrow> is_archive v \<longrightarrow>
                 map_of (eitems E2) k = Some v)"
proof -
  obtain r Ea wa where re: "realize (map fst (eitems E1)) E1 w = (r, Ea, wa)"
    by (metis prod.exhaust)
  with assms obtain snap where r: "r = Inr snap" by (cases r) (auto simp: ExperimentsConfig_save_def)
  obtain se Eb wb where sv: "save_experiments cwd snap Ea wa = (se, Eb, wb)"
    by (metis prod.exhaust)
  with assms re r have se: "se = None" and Eb: "Eb = E2"
    by (cases se; auto simp: ExperimentsConfig_save_def Let_def split: prod.splits sum.splits)+
  obtain dr w4 where sd: "safe_dump (PDict (master_index (eitems E2))) (exp_file E2)
        (lock_acquire (exp_file E2 @ ''.lck'') wb) = (dr, w4)"
    by (metis prod.exhaust)
  with assms re r sv se Eb obtain u where dr: "dr = Inr u"
    and w2: "w2 = lock_release (exp_file E2 @ ''.lck'') w4"
    by (cases dr) (auto simp: ExperimentsConfig_save_def Let_def)
  note R = realize_keeps [OF re]
  from R r have pre: "\<forall>kv \<in> set snap. is_dict (snd kv) \<longrightarrow>
      (\<exists>v'. map_of (eitems Ea) (fst kv) = Some v' \<and> is_dict v')" by auto
  note S = save_experiments_keeps [OF sv pre]
  have ef: "exp_file E2 = exp_file E1" using R S Eb by (simp add: exp_file_def)
  from sd dr have "files w4 (exp_file E2) = Some (Yaml (PDict (master_index (eitems E2))))"
    using safe_dump_writes by simp
  with w2 ef have f: "files w2 (exp_file E1) = Some (Yaml (PDict (master_index (eitems E2))))"
    by (simp add: lock_release_def log_def)
  have k: "map fst (eitems E2) = map fst (eitems E1)" using R S Eb by simp
  have a: "\<forall>k v. map_of (eitems E1) k = Some v \<longrightarrow> is_archive v \<longrightarrow>
                 map_of (eitems E2) k = Some v"
    using R S Eb by blast
  from f k a show ?thesis by blast
qed

text \<open>
  Claim C8. Assigning an Archive that carries the project name \<open>p\<close> to a
  name, when the assignment returns: the registry holds the Archive under the
  name; \<^verbatim>\<open>_project_map\<close> is what the loop of the property \<^verbatim>\<open>project_map\<close> made
  of it over the items as they were before the Archive was stored; reading
  the property \<^verbatim>\<open>project_map\<close> afterwards returns an index that has the name
  under \<open>p\<close>; and whenever a following \<^verbatim>\<open>save()\<close> returns, the master index
  file holds the names of the registry, in order, the Archive under the
  archived name and \<^verbatim>\<open>None\<close> under every name whose value is not an Archive.
\<close>

theorem archive_stays_indexed:
  assumes "setitem E key (PArchive t (Some p) tm) = (None, E1)"
  shows "map_of (eitems E1) key = Some (PArchive t (Some p) tm)
       \<and> project_map' E1 = fst (fold_project_map (project_map' E) (eitems E))
       \<and> (\<exists>m. fst (project_map E1) = Inr m \<and> key \<in> set (m (PStr p)))
       \<and> (\<forall>cwd w E2 w2. ExperimentsConfig_save cwd E1 w = (None, E2, w2) \<longrightarrow>
            files w2 (exp_file E1) = Some (Yaml (PDict (master_index (eitems E2))))
          \<and> map fst (master_index (eitems E2)) = map fst (eitems E1)
          \<and> map_of (master_index (eitems E2)) key = Some (PArchive t (Some p) tm)
          \<and> (\<forall>k v. map_of (eitems E2) k = Some v \<and> \<not> is_archive v \<longrightarrow>
                map_of (master_index (eitems E2)) k = Some PNone))"
proof -
  let ?A = "PArchive t (Some p) tm"
  obtain m0 e0 where f: "fold_project_map (project_map' E) (eitems E) = (m0, e0)"
    by (metis prod.exhaust)
  with assms have e0: "e0 = None"
    and E1: "E1 = E\<lparr>project_map' := m0, eitems := odict_set key ?A (eitems E)\<rparr>"
    by (auto simp: setitem_def project_map_def split: option.splits)
  have a: "map_of (eitems E1) key = Some ?A" by (simp add: E1 map_of_odict_set)
  have b: "project_map' E1 = fst (fold_project_map (project_map' E) (eitems E))"
    by (simp add: E1 f)
  from f e0 have "snd (fold_project_map (project_map' E) (eitems E)) = None" by simp
  from fold_project_map_archive_ok [OF this, of m0 key t "Some p" tm]
  obtain m2 where f2: "fold_project_map m0 (odict_set key ?A (eitems E)) = (m2, None)"
    by (cases "fold_project_map m0 (odict_set key ?A (eitems E))") auto
  from fold_project_map_in [OF f2 odict_set_member]
  have "key \<in> set (m2 (PStr p))" by (simp add: project_key_def)
  moreover have "fst (project_map E1) = Inr m2" by (simp add: project_map_def E1 f2)
  ultimately have c: "\<exists>m. fst (project_map E1) = Inr m \<and> key \<in> set (m (PStr p))" by blast
  have d: "\<forall>cwd w E2 w2. ExperimentsConfig_save cwd E1 w = (None, E2, w2) \<longrightarrow>
            files w2 (exp_file E1) = Some (Yaml (PDict (master_index (eitems E2))))
          \<and> map fst (master_index (eitems E2)) = map fst (eitems E1)
          \<and> map_of (master_index (eitems E2)) key = Some ?A
          \<and> (\<forall>k v. map_of (eitems E2) k = Some v \<and> \<not> is_archive v \<longrightarrow>
                map_of (master_index (eitems E2)) k = Some PNone)"
  proof (intro allI impI)
    fix cwd w E2 w2
    assume sv: "ExperimentsConfig_save cwd E1 w = (None, E2, w2)"
    note W = save_writes_index [OF sv]
    from W a have "map_of (eitems E2) key = Some ?A" by simp
    then have x: "map_of (master_index (eitems E2)) key = Some ?A"
      by (simp add: map_of_master_index)
    have y: "\<forall>k v. map_of (eitems E2) k = Some v \<and> \<not> is_archive v \<longrightarrow>
                map_of (master_index (eitems E2)) k = Some PNone"
      by (simp add: map_of_master_index)
    from W x y show "files w2 (exp_file E1) = Some (Yaml (PDict (master_index (eitems E2))))
          \<and> map fst (master_index (eitems E2)) = map fst (eitems E1)
          \<and> map_of (master_index (eitems E2)) key = Some ?A
          \<and> (\<forall>k v. map_of (eitems E2) k = Some v \<and> \<not> is_archive v \<longrightarrow>
                map_of (master_index (eitems E2)) k = Some PNone)"
      by (simp add: keys_master_index)
  qed
  from a b c d show ?thesis by blast
qed

theorem archive_stays_indexed_witness:
  "\<exists>E1 E2 w2.
     setitem two_experiments ''exp'' (PArchive ''exp.tar'' (Some ''P'') None) = (None, E1)
   \<and> ExperimentsConfig_save ''/'' E1 empty_world = (None, E2, w2)
   \<and> map_of (eitems E2) ''other'' = Some (PDict [(''project'', PStr ''P'')])
   \<and> \<not> is_archive (PDict [(''project'', PStr ''P'')])
   \<and> map_of (eitems E1) ''exp'' = Some (PArchive ''exp.tar'' (Some ''P'') None)
   \<and> (\<exists>m. fst (project_map E1) = Inr m \<and> ''exp'' \<in> set (m (PStr ''P'')))
   \<and> files w2 (exp_file E1) = Some (Yaml (PDict (master_index (eitems E2))))
   \<and> map_of (master_index (eitems E2)) ''exp'' = Some (PArchive ''exp.tar'' (Some ''P'') None)
   \<and> map_of (master_index (eitems E2)) ''other'' = Some PNone"
proof -
  define E1 where "E1 =
     \<lparr>projects = one_project,
      project_map' = (\<lambda>_. [])(PStr ''P'' := [''exp'', ''other'']),
      finalized = False,
      eitems = [(''exp'', PArchive ''exp.tar'' (Some ''P'') None),
                (''other'', PDict [(''project'', PStr ''P'')])]\<rparr>"
  have s: "setitem two_experiments ''exp'' (PArchive ''exp.tar'' (Some ''P'') None)
      = (None, E1)"
    by (simp add: E1_def setitem_def project_map_def two_experiments_def add_exp_def)
  obtain E2 w2 where sv: "ExperimentsConfig_save ''/'' E1 empty_world = (None, E2, w2)"
    and o: "map_of (eitems E2) ''other'' = Some (PDict [(''project'', PStr ''P'')])"
    by (simp add: E1_def ExperimentsConfig_save_def getitem_def resolve_root_def paths_def
        lookup_root_def project_file_def ensure_dir_def dirname_def osp_join_def exp_file_def
        one_project_def empty_world_def master_index_def io_defs path_defs Let_def)
  note T = archive_stays_indexed [OF s]
  from T have a: "map_of (eitems E1) ''exp'' = Some (PArchive ''exp.tar'' (Some ''P'') None)"
    and c: "\<exists>m. fst (project_map E1) = Inr m \<and> ''exp'' \<in> set (m (PStr ''P''))"
    by blast+
  from T sv have f: "files w2 (exp_file E1) = Some (Yaml (PDict (master_index (eitems E2))))"
    and x: "map_of (master_index (eitems E2)) ''exp'' = Some (PArchive ''exp.tar'' (Some ''P'') None)"
    and y: "\<forall>k v. map_of (eitems E2) k = Some v \<and> \<not> is_archive v \<longrightarrow>
                map_of (master_index (eitems E2)) k = Some PNone"
    by blast+
  from y o have z: "map_of (master_index (eitems E2)) ''other'' = Some PNone" by simp
  from s sv o a c f x z show ?thesis by auto
qed

end
